theory Spec2Isabelle
  imports Complex_Main
begin

section \<open>Values, errors and the driver\<close>

text \<open>
  The development embeds \<^verbatim>\<open>src/db_manager.py\<close>: the parameter sanitiser
  \<^verbatim>\<open>nan_to_none\<close> and the methods \<^verbatim>\<open>connect\<close>,
  \<^verbatim>\<open>execute_query\<close>, \<^verbatim>\<open>execute_many\<close>,
  \<^verbatim>\<open>get_existing_dates\<close> and \<^verbatim>\<open>insert_ibovespa_data\<close> of
  \<^verbatim>\<open>IbovespaDBManager\<close>. Methods take the manager and return a result together with
  the manager after the call; an exception is the left summand of the result.
\<close>

subsection \<open>Python values\<close>

text \<open>A calendar date \<^verbatim>\<open>datetime.date(year, month, day)\<close>.\<close>

datatype date = Date int int int

text \<open>
  The values that occur as cells of the data frame and as statement parameters.
  \<open>PNaN\<close> is the float not-a-number, \<open>PFloat\<close> any other float (numpy's
  \<^verbatim>\<open>float64\<close> is a subclass of \<^verbatim>\<open>float\<close>), \<open>PStr\<close> an
  arbitrary text, \<open>PTimestamp d t\<close> a pandas timestamp on day \<open>d\<close> at \<open>t\<close> units
  into the day, \<open>PDate\<close> a \<^verbatim>\<open>datetime.date\<close>. \<open>PIso d\<close> is the text that
  \<^verbatim>\<open>d.strftime('%Y-%m-%d')\<close> returns; it is kept apart from \<open>PStr\<close> so that the
  rendering of a date is injective by construction and the store can read it back.
\<close>

datatype pvalue =
    PNone
  | PNaN
  | PFloat real
  | PInt int
  | PStr string
  | PIso date
  | PTimestamp date nat
  | PDate date

type_synonym params = "pvalue list"

text \<open>\<^verbatim>\<open>pd.isna\<close> on a scalar of this universe, \<^verbatim>\<open>isinstance(v, float)\<close>
  and \<^verbatim>\<open>np.isnan\<close> on a float.\<close>

fun pd_isna :: "pvalue \<Rightarrow> bool" where
  "pd_isna PNone = True"
| "pd_isna PNaN = True"
| "pd_isna _ = False"

fun is_float :: "pvalue \<Rightarrow> bool" where
  "is_float PNaN = True"
| "is_float (PFloat _) = True"
| "is_float _ = False"

fun np_isnan :: "pvalue \<Rightarrow> bool" where
  "np_isnan PNaN = True"
| "np_isnan _ = False"

definition nan_to_none :: "pvalue \<Rightarrow> pvalue" where
  "nan_to_none v =
     (if pd_isna v \<or> v = PNone \<or> (is_float v \<and> np_isnan v) then PNone else v)"

subsection \<open>Exceptions\<close>

text \<open>
  \<open>Error\<close> stands for \<^verbatim>\<open>mysql.connector.Error\<close> and its subclasses, the only
  exceptions the module's handlers catch; its argument is the driver's message.
\<close>

type_synonym mysql_error = string

datatype exn =
    Error mysql_error
  | ConnectionError string
  | AttributeError
  | KeyError string
  | ValueError
  | IndexError

fun is_ConnectionError :: "exn \<Rightarrow> bool" where
  "is_ConnectionError (ConnectionError _) = True"
| "is_ConnectionError _ = False"

subsection \<open>SQL texts\<close>

text \<open>
  The statements are Python strings. The triple-quoted literals of the source are
  written here on one line, their line breaks and indentation collapsed to single
  blanks.
\<close>

definition select_dates_sql :: string where
  "select_dates_sql = ''SELECT date FROM Ft_Ibovespa''"

definition insert_sql :: string where
  "insert_sql = ''INSERT INTO Ft_Ibovespa (date, open, high, low, close, volume, year, month, day, rentabilidade, media_movel_7d, media_movel_14d, media_movel_21d, media_movel_50d, media_movel_200d) VALUES (%s, %s, %s, %s, %s, %s, %s, %s, %s, %s, %s, %s, %s, %s, %s)''"

definition update_sql :: string where
  "update_sql = ''UPDATE Ft_Ibovespa SET open = %s, high = %s, low = %s, close = %s, volume = %s, year = %s, month = %s, day = %s, rentabilidade = %s, media_movel_7d = %s, media_movel_14d = %s, media_movel_21d = %s, media_movel_50d = %s, media_movel_200d = %s WHERE date = %s''"

definition is_space :: "char \<Rightarrow> bool" where
  "is_space c = (c \<in> set [CHR '' '', CHR 0x09, CHR 0x0A, CHR 0x0B, CHR 0x0C, CHR 0x0D])"

definition strip :: "string \<Rightarrow> string" where
  "strip s = rev (dropWhile is_space (rev (dropWhile is_space s)))"

definition upper_char :: "char \<Rightarrow> char" where
  "upper_char c =
     (let n = (of_char c :: nat) in if 97 \<le> n \<and> n \<le> 122 then char_of (n - 32) else c)"

definition upper :: "string \<Rightarrow> string" where
  "upper s = map upper_char s"

definition startswith :: "string \<Rightarrow> string \<Rightarrow> bool" where
  "startswith s p = (take (length p) s = p)"

text \<open>\<^verbatim>\<open>query.strip().upper().startswith(w)\<close>.\<close>

definition starts_with_word :: "string \<Rightarrow> string \<Rightarrow> bool" where
  "starts_with_word q w = startswith (upper (strip q)) w"

subsection \<open>The store behind the connection\<close>

text \<open>
  MySQL and its connector are not part of the repository. They are modelled by a
  session: the committed rows of table \<^verbatim>\<open>Ft_Ibovespa\<close>, the rows as the open
  transaction sees them, and a log of the calls made on the cursor and the
  connection. A row is its \<^verbatim>\<open>date\<close> key with the remaining column values in
  column order. What the environment decides is explicit: \<open>faults\<close> holds, for
  each forthcoming statement, either nothing or \<open>(k, e)\<close>, meaning that its parameter
  set number \<open>k\<close> (from 0) makes the server answer with error \<open>e\<close>; \<open>found_rows\<close>
  is the connection flag \<^verbatim>\<open>CLIENT_FOUND_ROWS\<close>, under which an \<^verbatim>\<open>UPDATE\<close>
  reports the rows it matches; without it MySQL reports the rows it changes.
  A row keeps the values as they were bound, and \<^verbatim>\<open>commit\<close> and
  \<^verbatim>\<open>rollback\<close> themselves do not fail.
\<close>

type_synonym table = "(date \<times> params) list"

datatype event =
    Execute string params
  | Executemany string "params list"
  | Commit
  | Rollback

record session =
  durable :: table
  working :: table
  faults :: "(nat \<times> mysql_error) option list"
  found_rows :: bool
  log :: "event list"

definition next_fault :: "session \<Rightarrow> (nat \<times> mysql_error) option" where
  "next_fault s = (case faults s of [] \<Rightarrow> None | f # _ \<Rightarrow> f)"

definition strikes :: "(nat \<times> mysql_error) option \<Rightarrow> nat \<Rightarrow> bool" where
  "strikes f i = (case f of None \<Rightarrow> False | Some (k, _) \<Rightarrow> k = i)"

definition strikes_within :: "(nat \<times> mysql_error) option \<Rightarrow> nat \<Rightarrow> bool" where
  "strikes_within f n = (case f of None \<Rightarrow> False | Some (k, _) \<Rightarrow> k < n)"

definition fault_error :: "(nat \<times> mysql_error) option \<Rightarrow> mysql_error" where
  "fault_error f = (case f of None \<Rightarrow> [] | Some (_, e) \<Rightarrow> e)"

definition table_keys :: "table \<Rightarrow> date list" where
  "table_keys t = map fst t"

definition duplicate_entry :: mysql_error where
  "duplicate_entry = ''1062 (23000): Duplicate entry for key idx_date''"

definition incorrect_date :: mysql_error where
  "incorrect_date = ''1292 (22007): Incorrect date value''"

text \<open>An \<^verbatim>\<open>INSERT\<close> parameter set is the date text followed by the columns; an
  \<^verbatim>\<open>UPDATE\<close> parameter set is the columns followed by the date text.\<close>

fun insert_args :: "params \<Rightarrow> (date \<times> params) option" where
  "insert_args (PIso d # fs) = Some (d, fs)"
| "insert_args _ = None"

definition update_args :: "params \<Rightarrow> (date \<times> params) option" where
  "update_args p =
     (case rev p of PIso d # rfs \<Rightarrow> Some (d, rev rfs) | _ \<Rightarrow> None)"

text \<open>The connector sends the parameter sets of an \<^verbatim>\<open>INSERT\<close> as one multi-row
  statement: all rows are stored or, on an error, none. The unique index on
  \<^verbatim>\<open>date\<close> rejects a key that is already present or repeated in the statement.\<close>

definition insert_many ::
  "(nat \<times> mysql_error) option \<Rightarrow> params list \<Rightarrow> table \<Rightarrow> (mysql_error + int) \<times> table" where
  "insert_many f batch t =
     (if strikes_within f (length batch) then (Inl (fault_error f), t)
      else
        (case those (map insert_args batch) of
           None \<Rightarrow> (Inl incorrect_date, t)
         | Some rows \<Rightarrow>
             if distinct (map fst rows) \<and> set (map fst rows) \<inter> set (table_keys t) = {}
             then (Inr (int (length rows)), t @ rows)
             else (Inl duplicate_entry, t)))"

definition update_row :: "date \<Rightarrow> params \<Rightarrow> table \<Rightarrow> table" where
  "update_row d fs t = map (\<lambda>(k, old). if k = d then (k, fs) else (k, old)) t"

definition affected :: "bool \<Rightarrow> date \<Rightarrow> params \<Rightarrow> table \<Rightarrow> int" where
  "affected fr d fs t =
     int (length (filter (\<lambda>(k, old). k = d \<and> (fr \<or> old \<noteq> fs)) t))"

text \<open>For any other statement the connector executes the parameter sets one after
  the other and adds up the row counts; the sets before a failing one have been
  applied inside the open transaction.\<close>

fun update_many ::
  "bool \<Rightarrow> (nat \<times> mysql_error) option \<Rightarrow> nat \<Rightarrow> params list \<Rightarrow> table \<Rightarrow> int
     \<Rightarrow> (mysql_error + int) \<times> table" where
  "update_many fr f i [] t n = (Inr n, t)"
| "update_many fr f i (p # ps) t n =
     (if strikes f i then (Inl (fault_error f), t)
      else
        (case update_args p of
           None \<Rightarrow> (Inl incorrect_date, t)
         | Some (d, fs) \<Rightarrow>
             update_many fr f (Suc i) ps (update_row d fs t) (n + affected fr d fs t)))"

text \<open>\<^verbatim>\<open>cursor.executemany\<close>: the result is the error raised or the cursor's
  \<^verbatim>\<open>rowcount\<close>.\<close>

definition cursor_executemany ::
  "string \<Rightarrow> params list \<Rightarrow> session \<Rightarrow> (mysql_error + int) \<times> session" where
  "cursor_executemany q batch s =
     (let f = next_fault s;
          s1 = s\<lparr>faults := tl (faults s), log := log s @ [Executemany q batch]\<rparr>;
          (r, t) =
            (if starts_with_word q ''INSERT'' then insert_many f batch (working s)
             else if starts_with_word q ''UPDATE'' then
               update_many (found_rows s) f 0 batch (working s) 0
             else if strikes_within f (length batch) then (Inl (fault_error f), working s)
             else (Inr 0, working s))
      in (r, s1\<lparr>working := t\<rparr>))"

text \<open>\<^verbatim>\<open>cursor.execute\<close> followed by \<^verbatim>\<open>cursor.fetchall\<close>: the only statement
  whose result the model interprets is the key query; its rows hold one
  \<^verbatim>\<open>datetime.date\<close> each.\<close>

definition cursor_execute ::
  "string \<Rightarrow> params \<Rightarrow> session \<Rightarrow> (mysql_error + params list) \<times> session" where
  "cursor_execute q ps s =
     (let f = next_fault s;
          s1 = s\<lparr>faults := tl (faults s), log := log s @ [Execute q ps]\<rparr>
      in if strikes_within f 1 then (Inl (fault_error f), s1)
         else if q = select_dates_sql then (Inr (map (\<lambda>(d, _). [PDate d]) (working s)), s1)
         else (Inr [], s1))"

definition conn_commit :: "session \<Rightarrow> session" where
  "conn_commit s = s\<lparr>durable := working s, log := log s @ [Commit]\<rparr>"

definition conn_rollback :: "session \<Rightarrow> session" where
  "conn_rollback s = s\<lparr>working := durable s, log := log s @ [Rollback]\<rparr>"

section \<open>The manager\<close>

text \<open>\<^verbatim>\<open>self.conn\<close> with its cursor: \<open>None\<close> before \<^verbatim>\<open>connect\<close> and after
  \<^verbatim>\<open>disconnect\<close>.\<close>

record manager =
  conn :: "session option"

subsection \<open>connect\<close>

datatype connect_event = Attempt | Sleep int

text \<open>The fixed message of the fallback exception, as UTF-8 bytes.\<close>

definition connect_failure_msg :: string where
  "connect_failure_msg =
     ''N'' @ [CHR 0xC3, CHR 0xA3] @ ''o foi poss'' @ [CHR 0xC3, CHR 0xAD]
       @ ''vel conectar ao banco de dados''"

text \<open>
  The \<^verbatim>\<open>while\<close> loop of \<^verbatim>\<open>connect\<close>. \<open>env k\<close> is what call number \<open>k\<close>
  (from 0) of \<^verbatim>\<open>mysql.connector.connect\<close> does: it raises a driver error or
  returns a live session. \<^verbatim>\<open>time.sleep\<close> raises \<^verbatim>\<open>ValueError\<close> on a negative
  argument. The trace records the attempts and the sleeps in order.
\<close>

function connect_loop ::
  "(nat \<Rightarrow> mysql_error + session) \<Rightarrow> int \<Rightarrow> int \<Rightarrow> int \<Rightarrow> mysql_error option \<Rightarrow> manager
     \<Rightarrow> connect_event list \<Rightarrow> (exn + unit) \<times> manager \<times> connect_event list" where
  "connect_loop env max_retries retry_delay attempt last_error m tr =
     (if attempt < max_retries then
        (case env (nat attempt) of
           Inr s \<Rightarrow> (Inr (), m\<lparr>conn := Some s\<rparr>, tr @ [Attempt])
         | Inl e \<Rightarrow>
             if attempt + 1 < max_retries then
               (if retry_delay < 0 then (Inl ValueError, m, tr @ [Attempt])
                else connect_loop env max_retries retry_delay (attempt + 1) (Some e) m
                       (tr @ [Attempt, Sleep retry_delay]))
             else connect_loop env max_retries retry_delay (attempt + 1) (Some e) m
                    (tr @ [Attempt]))
      else
        (Inl (case last_error of Some e \<Rightarrow> Error e
                | None \<Rightarrow> ConnectionError connect_failure_msg), m, tr))"
  by pat_completeness auto
termination
  by (relation "measure (\<lambda>(env, mx, d, a, le, m, tr). nat (mx - a))") auto

definition connect ::
  "(nat \<Rightarrow> mysql_error + session) \<Rightarrow> int \<Rightarrow> int \<Rightarrow> manager
     \<Rightarrow> (exn + unit) \<times> manager \<times> connect_event list" where
  "connect env max_retries retry_delay m =
     connect_loop env max_retries retry_delay 0 None m []"

subsection \<open>execute_query and execute_many\<close>

definition execute_query ::
  "string \<Rightarrow> params \<Rightarrow> manager \<Rightarrow> (exn + params list option) \<times> manager" where
  "execute_query query ps m =
     (case conn m of
        None \<Rightarrow> (Inl AttributeError, m)
      | Some s \<Rightarrow>
          (let clean_params = (if ps \<noteq> [] then map nan_to_none ps else ps) in
           case cursor_execute query clean_params s of
             (Inl e, s1) \<Rightarrow> (Inl (Error e), m\<lparr>conn := Some (conn_rollback s1)\<rparr>)
           | (Inr rows, s1) \<Rightarrow>
               if starts_with_word query ''SELECT'' then (Inr (Some rows), m\<lparr>conn := Some s1\<rparr>)
               else (Inr None, m\<lparr>conn := Some (conn_commit s1)\<rparr>)))"

definition execute_many ::
  "string \<Rightarrow> params list \<Rightarrow> manager \<Rightarrow> (exn + int) \<times> manager" where
  "execute_many query params_list m =
     (if params_list = [] then (Inr 0, m)
      else
        (case conn m of
           None \<Rightarrow> (Inl AttributeError, m)
         | Some s \<Rightarrow>
             (let clean_params_list = map (map nan_to_none) params_list in
              case cursor_executemany query clean_params_list s of
                (Inl e, s1) \<Rightarrow> (Inl (Error e), m\<lparr>conn := Some (conn_rollback s1)\<rparr>)
              | (Inr rowcount, s1) \<Rightarrow> (Inr rowcount, m\<lparr>conn := Some (conn_commit s1)\<rparr>))))"

subsection \<open>get_existing_dates\<close>

text \<open>\<^verbatim>\<open>row[0]\<close> raises \<^verbatim>\<open>IndexError\<close> on an empty row. Only
  \<^verbatim>\<open>mysql.connector.Error\<close> is caught; the set is a set of the values read.\<close>

fun first_column :: "params \<Rightarrow> pvalue option" where
  "first_column [] = None"
| "first_column (v # _) = Some v"

definition get_existing_dates :: "manager \<Rightarrow> (exn + pvalue set) \<times> manager" where
  "get_existing_dates m =
     (case execute_query select_dates_sql [] m of
        (Inl (Error e), m1) \<Rightarrow> (Inr {}, m1)
      | (Inl x, m1) \<Rightarrow> (Inl x, m1)
      | (Inr result, m1) \<Rightarrow>
          (case result of
             None \<Rightarrow> (Inr {}, m1)
           | Some rows \<Rightarrow>
               if rows \<noteq> [] then
                 (case those (map first_column rows) of
                    None \<Rightarrow> (Inl IndexError, m1)
                  | Some vs \<Rightarrow> (Inr (set vs), m1))
               else (Inr {}, m1)))"

subsection \<open>insert_ibovespa_data\<close>

text \<open>A row of the data frame, as \<^verbatim>\<open>iterrows\<close> yields it: a mapping from column
  names to cells. \<^verbatim>\<open>row[k]\<close> raises \<^verbatim>\<open>KeyError\<close> on a missing column,
  \<^verbatim>\<open>row.get(k, None)\<close> does not.\<close>

type_synonym row = "string \<rightharpoonup> pvalue"

definition getitem :: "row \<Rightarrow> string \<Rightarrow> exn + pvalue" where
  "getitem r k = (case r k of None \<Rightarrow> Inl (KeyError k) | Some v \<Rightarrow> Inr v)"

definition row_get :: "row \<Rightarrow> string \<Rightarrow> pvalue" where
  "row_get r k = (case r k of None \<Rightarrow> PNone | Some v \<Rightarrow> v)"

fun getitems :: "row \<Rightarrow> string list \<Rightarrow> exn + params" where
  "getitems r [] = Inr []"
| "getitems r (k # ks) =
     (case getitem r k of
        Inl e \<Rightarrow> Inl e
      | Inr v \<Rightarrow> (case getitems r ks of Inl e \<Rightarrow> Inl e | Inr vs \<Rightarrow> Inr (v # vs)))"

text \<open>
  The conversion of \<^verbatim>\<open>row['Date']\<close>: a text goes through
  \<^verbatim>\<open>datetime.strptime(_, '%Y-%m-%d').date()\<close>, a value with a \<^verbatim>\<open>date\<close>
  attribute through \<^verbatim>\<open>.date()\<close>, anything else is taken as it is.
  \<open>strptime\<close> is the library's parser, a parameter: \<open>None\<close> is its
  \<^verbatim>\<open>ValueError\<close>. Reading back the rendering of a date gives the date.
\<close>

fun to_date_obj :: "(string \<Rightarrow> date option) \<Rightarrow> pvalue \<Rightarrow> exn + pvalue" where
  "to_date_obj strptime (PStr s) =
     (case strptime s of None \<Rightarrow> Inl ValueError | Some d \<Rightarrow> Inr (PDate d))"
| "to_date_obj strptime (PIso d) = Inr (PDate d)"
| "to_date_obj strptime (PTimestamp d t) = Inr (PDate d)"
| "to_date_obj strptime v = Inr v"

text \<open>\<^verbatim>\<open>date_obj.strftime('%Y-%m-%d')\<close>: only dates and timestamps have the method.\<close>

fun strftime_ymd :: "pvalue \<Rightarrow> exn + pvalue" where
  "strftime_ymd (PDate d) = Inr (PIso d)"
| "strftime_ymd (PTimestamp d t) = Inr (PIso d)"
| "strftime_ymd _ = Inl AttributeError"

datatype queued = Insert params | Update params

definition price_columns :: "string list" where
  "price_columns = [''Open'', ''High'', ''Low'', ''Close'', ''Volume'', ''year'', ''month'', ''day'']"

text \<open>The body of the \<^verbatim>\<open>for\<close> loop over the rows, in the source's order of
  evaluation.\<close>

definition classify_row ::
  "(string \<Rightarrow> date option) \<Rightarrow> pvalue set \<Rightarrow> row \<Rightarrow> exn + queued" where
  "classify_row strptime existing_dates r =
     (case getitem r ''Date'' of
        Inl e \<Rightarrow> Inl e
      | Inr v \<Rightarrow>
     (case to_date_obj strptime v of
        Inl e \<Rightarrow> Inl e
      | Inr date_obj \<Rightarrow>
     (case strftime_ymd date_obj of
        Inl e \<Rightarrow> Inl e
      | Inr date_str \<Rightarrow>
          (let media_movel_7d = row_get r ''media_movel_7d'';
               media_movel_14d = row_get r ''media_movel_14d'';
               media_movel_21d = row_get r ''media_movel_21d'';
               media_movel_50d = row_get r ''media_movel_50d'';
               media_movel_200d = row_get r ''media_movel_200d'';
               rentabilidade = row_get r ''rentabilidade'';
               derived = [rentabilidade, media_movel_7d, media_movel_14d, media_movel_21d,
                          media_movel_50d, media_movel_200d]
           in if date_obj \<in> existing_dates then
                (case getitems r price_columns of
                   Inl e \<Rightarrow> Inl e
                 | Inr vs \<Rightarrow> Inr (Update (vs @ derived @ [date_str])))
              else
                (case getitems r price_columns of
                   Inl e \<Rightarrow> Inl e
                 | Inr vs \<Rightarrow> Inr (Insert (date_str # vs @ derived)))))))"

fun prepare ::
  "(string \<Rightarrow> date option) \<Rightarrow> pvalue set \<Rightarrow> row list \<Rightarrow> params list \<Rightarrow> params list
     \<Rightarrow> exn + (params list \<times> params list)" where
  "prepare strptime existing_dates [] inserts updates = Inr (inserts, updates)"
| "prepare strptime existing_dates (r # rs) inserts updates =
     (case classify_row strptime existing_dates r of
        Inl e \<Rightarrow> Inl e
      | Inr (Update p) \<Rightarrow> prepare strptime existing_dates rs inserts (updates @ [p])
      | Inr (Insert p) \<Rightarrow> prepare strptime existing_dates rs (inserts @ [p]) updates)"

text \<open>
  \<^verbatim>\<open>for i in range(0, len(queue), batch_size)\<close> for a positive step, with the
  running total of the affected rows; the first failing batch ends the loop with
  its exception.
\<close>

function batch_loop ::
  "string \<Rightarrow> params list \<Rightarrow> nat \<Rightarrow> nat \<Rightarrow> int \<Rightarrow> manager \<Rightarrow> (exn + int) \<times> manager" where
  "batch_loop query queue batch_size i done_rows m =
     (if batch_size = 0 \<or> length queue \<le> i then (Inr done_rows, m)
      else
        (let batch = take batch_size (drop i queue) in
         if batch = [] then batch_loop query queue batch_size (i + batch_size) done_rows m
         else
           (case execute_many query batch m of
              (Inl e, m1) \<Rightarrow> (Inl e, m1)
            | (Inr rows_affected, m1) \<Rightarrow>
                batch_loop query queue batch_size (i + batch_size) (done_rows + rows_affected) m1)))"
  by pat_completeness auto
termination
  by (relation "measure (\<lambda>(q, queue, b, i, t, m). length queue - i)") auto

text \<open>The guard \<^verbatim>\<open>if queue:\<close> and the \<^verbatim>\<open>range\<close>: a zero step raises
  \<^verbatim>\<open>ValueError\<close>, a negative step gives the empty range.\<close>

definition run_batches ::
  "string \<Rightarrow> params list \<Rightarrow> int \<Rightarrow> manager \<Rightarrow> (exn + int) \<times> manager" where
  "run_batches query queue batch_size m =
     (if queue = [] then (Inr 0, m)
      else if batch_size = 0 then (Inl ValueError, m)
      else if batch_size < 0 then (Inr 0, m)
      else batch_loop query queue (nat batch_size) 0 0 m)"

text \<open>The handler of the outer \<^verbatim>\<open>try\<close>: a driver error is rolled back once more
  and re-raised, any other exception passes through.\<close>

definition on_error :: "exn \<Rightarrow> manager \<Rightarrow> (exn + 'a) \<times> manager" where
  "on_error e m =
     (case e of
        Error _ \<Rightarrow>
          (case conn m of
             None \<Rightarrow> (Inl AttributeError, m)
           | Some s \<Rightarrow> (Inl e, m\<lparr>conn := Some (conn_rollback s)\<rparr>))
      | _ \<Rightarrow> (Inl e, m))"

text \<open>The body of the \<^verbatim>\<open>try\<close>, returning the two counters \<^verbatim>\<open>inserted\<close> and
  \<^verbatim>\<open>updated\<close> that the source adds up and logs.\<close>

definition upsert_counts ::
  "(string \<Rightarrow> date option) \<Rightarrow> row list \<Rightarrow> int \<Rightarrow> manager \<Rightarrow> (exn + int \<times> int) \<times> manager" where
  "upsert_counts strptime data batch_size m =
     (case get_existing_dates m of
        (Inl e, m1) \<Rightarrow> on_error e m1
      | (Inr existing_dates, m1) \<Rightarrow>
     (case prepare strptime existing_dates data [] [] of
        Inl e \<Rightarrow> on_error e m1
      | Inr (inserts, updates) \<Rightarrow>
     (case run_batches insert_sql inserts batch_size m1 of
        (Inl e, m2) \<Rightarrow> on_error e m2
      | (Inr inserted, m2) \<Rightarrow>
     (case run_batches update_sql updates batch_size m2 of
        (Inl e, m3) \<Rightarrow> on_error e m3
      | (Inr updated, m3) \<Rightarrow> (Inr (inserted, updated), m3)))))"

definition insert_ibovespa_data ::
  "(string \<Rightarrow> date option) \<Rightarrow> row list \<Rightarrow> int \<Rightarrow> manager \<Rightarrow> (exn + int) \<times> manager" where
  "insert_ibovespa_data strptime data batch_size m =
     (if data = [] then (Inr 0, m)
      else
        (case upsert_counts strptime data batch_size m of
           (Inl e, m1) \<Rightarrow> (Inl e, m1)
         | (Inr (inserted, updated), m1) \<Rightarrow> (Inr (inserted + updated), m1)))"

section \<open>Notions used in the statements\<close>

subsection \<open>Connecting\<close>

text \<open>The trace of \<open>n\<close> connection attempts with a sleep of \<open>d\<close> seconds between
  consecutive ones.\<close>

fun retry_trace :: "nat \<Rightarrow> int \<Rightarrow> connect_event list" where
  "retry_trace 0 d = []"
| "retry_trace (Suc 0) d = [Attempt]"
| "retry_trace (Suc (Suc n)) d = Attempt # Sleep d # retry_trace (Suc n) d"

subsection \<open>The store\<close>

text \<open>The next statement of the session is answered with an error.\<close>

definition query_fails :: "session \<Rightarrow> bool" where
  "query_fails s = strikes_within (next_fault s) 1"

text \<open>The values held in the columns of a table, and a manager whose session holds no
  not-a-number in any column, committed or not.\<close>

definition stored :: "table \<Rightarrow> pvalue set" where
  "stored t = (\<Union>r \<in> set t. set (snd r))"

definition nan_free :: "manager \<Rightarrow> bool" where
  "nan_free m = (case conn m of None \<Rightarrow> True
                 | Some s \<Rightarrow> PNaN \<notin> stored (durable s) \<and> PNaN \<notin> stored (working s))"

subsection \<open>Records\<close>

text \<open>The canonical date of a record and its fourteen column values, where the
  loop body finds them: \<open>row_key\<close> is the date object the conversion of
  \<^verbatim>\<open>row['Date']\<close> yields, \<open>row_fields\<close> the eight required columns followed by
  the six optional ones. A record is well formed if both exist, so that the loop
  body raises nothing on it.\<close>

definition derived_columns :: "string list" where
  "derived_columns = [''rentabilidade'', ''media_movel_7d'', ''media_movel_14d'',
     ''media_movel_21d'', ''media_movel_50d'', ''media_movel_200d'']"

definition row_key :: "(string \<Rightarrow> date option) \<Rightarrow> row \<Rightarrow> date option" where
  "row_key strptime r =
     (case getitem r ''Date'' of
        Inl e \<Rightarrow> None
      | Inr v \<Rightarrow> (case to_date_obj strptime v of Inr (PDate d) \<Rightarrow> Some d | _ \<Rightarrow> None))"

definition row_fields :: "row \<Rightarrow> params option" where
  "row_fields r =
     (case getitems r price_columns of
        Inl e \<Rightarrow> None
      | Inr vs \<Rightarrow> Some (vs @ map (row_get r) derived_columns))"

definition well_formed :: "(string \<Rightarrow> date option) \<Rightarrow> row \<Rightarrow> bool" where
  "well_formed strptime r = (row_key strptime r \<noteq> None \<and> row_fields r \<noteq> None)"

definition key_of :: "(string \<Rightarrow> date option) \<Rightarrow> row \<Rightarrow> date" where
  "key_of strptime r = the (row_key strptime r)"

text \<open>The parameter set of a record in the insert queue (date text, then columns)
  and in the update queue (columns, then date text as the match key).\<close>

definition insert_tuple :: "(string \<Rightarrow> date option) \<Rightarrow> row \<Rightarrow> params" where
  "insert_tuple strptime r = PIso (key_of strptime r) # the (row_fields r)"

definition update_tuple :: "(string \<Rightarrow> date option) \<Rightarrow> row \<Rightarrow> params" where
  "update_tuple strptime r = the (row_fields r) @ [PIso (key_of strptime r)]"

text \<open>The records of an input whose date the session does not hold, and those
  whose date it holds, in input order.\<close>

definition new_rows :: "(string \<Rightarrow> date option) \<Rightarrow> session \<Rightarrow> row list \<Rightarrow> row list" where
  "new_rows strptime s data =
     filter (\<lambda>r. key_of strptime r \<notin> set (table_keys (working s))) data"

definition old_rows :: "(string \<Rightarrow> date option) \<Rightarrow> session \<Rightarrow> row list \<Rightarrow> row list" where
  "old_rows strptime s data =
     filter (\<lambda>r. key_of strptime r \<in> set (table_keys (working s))) data"

subsection \<open>Batches\<close>

text \<open>The consecutive chunks of at most \<open>n\<close> entries of a list.\<close>

function chunks :: "nat \<Rightarrow> 'a list \<Rightarrow> 'a list list" where
  "chunks n xs = (if n = 0 \<or> xs = [] then [] else take n xs # chunks n (drop n xs))"
  by pat_completeness auto
termination
  by (relation "measure (\<lambda>(n, xs). length xs)") auto

text \<open>Submitting a list of batches, each with its statement, one after the other
  through \<^verbatim>\<open>execute_many\<close>: the first exception ends the run, otherwise the
  affected-row counts are added up.\<close>

fun run_jobs :: "(string \<times> params list) list \<Rightarrow> int \<Rightarrow> manager \<Rightarrow> (exn + int) \<times> manager" where
  "run_jobs [] done_rows m = (Inr done_rows, m)"
| "run_jobs ((query, batch) # jobs) done_rows m =
     (case execute_many query batch m of
        (Inl e, m1) \<Rightarrow> (Inl e, m1)
      | (Inr rows_affected, m1) \<Rightarrow> run_jobs jobs (done_rows + rows_affected) m1)"

text \<open>A batch as the cursor receives it, and the entries that a run of committed
  batches leaves in the call log.\<close>

definition clean :: "params list \<Rightarrow> params list" where
  "clean batch = map (map nan_to_none) batch"

definition batch_events :: "string \<Rightarrow> params list list \<Rightarrow> event list" where
  "batch_events q batches = concat (map (\<lambda>b. [Executemany q (clean b), Commit]) batches)"

text \<open>The row an insert parameter set is stored as, and the keys that the two
  kinds of parameter sets address.\<close>

definition stored_row :: "params \<Rightarrow> date \<times> params" where
  "stored_row p = the (insert_args (map nan_to_none p))"

definition insert_key :: "params \<Rightarrow> date" where
  "insert_key p = fst (the (insert_args p))"

definition update_key :: "params \<Rightarrow> date" where
  "update_key p = fst (the (update_args p))"

subsection \<open>Concrete environments and inputs\<close>

text \<open>Servers that refuse every connection, or all but the second.\<close>

definition unreachable :: "nat \<Rightarrow> mysql_error + session" where
  "unreachable k = Inl ''2003: Can't connect to MySQL server''"

definition down_thrice :: "nat \<Rightarrow> mysql_error + session" where
  "down_thrice k = Inl (if k = 0 then ''first'' else if k = 1 then ''second'' else ''third'')"

definition empty_session :: session where
  "empty_session = \<lparr>durable = [], working = [], faults = [], found_rows = True, log = []\<rparr>"

definition up_at_second :: "nat \<Rightarrow> mysql_error + session" where
  "up_at_second k = (if k = 1 then Inr empty_session else Inl ''2003: first call refused'')"

text \<open>A manager connected to an empty store, and an empty store whose connection
  reports changed rows only.\<close>

definition fresh :: manager where
  "fresh = \<lparr>conn = Some empty_session\<rparr>"

definition counts_changed_only :: session where
  "counts_changed_only = empty_session\<lparr>found_rows := False\<rparr>"

text \<open>Three records of January 2024, their dates given as a timestamp, as a text and
  as a date, with a parser that knows the one text.\<close>

definition parse_jan :: "string \<Rightarrow> date option" where
  "parse_jan t = (if t = ''2024-01-03'' then Some (Date 2024 1 3) else None)"

definition first_day :: row where
  "first_day = [''Date'' \<mapsto> PTimestamp (Date 2024 1 2) 0, ''Open'' \<mapsto> PFloat 132697,
     ''High'' \<mapsto> PFloat 133576, ''Low'' \<mapsto> PFloat 132250, ''Close'' \<mapsto> PFloat 132697,
     ''Volume'' \<mapsto> PInt 8437300, ''year'' \<mapsto> PInt 2024, ''month'' \<mapsto> PInt 1,
     ''day'' \<mapsto> PInt 2, ''rentabilidade'' \<mapsto> PNaN, ''media_movel_7d'' \<mapsto> PNaN]"

definition second_day :: row where
  "second_day = [''Date'' \<mapsto> PStr ''2024-01-03'', ''Open'' \<mapsto> PFloat 132697,
     ''High'' \<mapsto> PFloat 133576, ''Low'' \<mapsto> PFloat 132250, ''Close'' \<mapsto> PFloat 132834,
     ''Volume'' \<mapsto> PInt 8437300, ''year'' \<mapsto> PInt 2024, ''month'' \<mapsto> PInt 1,
     ''day'' \<mapsto> PInt 3, ''rentabilidade'' \<mapsto> PFloat 0.1]"

definition third_day :: row where
  "third_day = [''Date'' \<mapsto> PDate (Date 2024 1 4), ''Open'' \<mapsto> PFloat 132834,
     ''High'' \<mapsto> PFloat 132885, ''Low'' \<mapsto> PFloat 131024, ''Close'' \<mapsto> PFloat 131226,
     ''Volume'' \<mapsto> PInt 9097700, ''year'' \<mapsto> PInt 2024, ''month'' \<mapsto> PInt 1,
     ''day'' \<mapsto> PInt 4, ''rentabilidade'' \<mapsto> PFloat (-1.2)]"

definition first_day_params :: params where
  "first_day_params = [PFloat 132697, PFloat 133576, PFloat 132250, PFloat 132697, PInt 8437300,
     PInt 2024, PInt 1, PInt 2, PNaN, PNaN, PNone, PNone, PNone, PNone]"

text \<open>A store that holds two of these dates, healthy and with a failing next
  statement.\<close>

definition two_days :: table where
  "two_days = [(Date 2024 1 2, [PFloat 1, PNone]), (Date 2024 1 3, [PFloat 2, PNone])]"

definition seeded :: session where
  "seeded = \<lparr>durable = two_days, working = two_days, faults = [], found_rows = True, log = []\<rparr>"

definition seeded_failing :: session where
  "seeded_failing = seeded\<lparr>faults := [Some (0, ''2013: Lost connection to MySQL server'')]\<rparr>"

text \<open>A long input: record number \<open>i\<close> is dated on day \<open>i mod 28 + 1\<close> of month
  \<open>i mod 336 div 28 + 1\<close> of year \<open>2020 + i div 336\<close>; 450 of them, and the
  first five.\<close>

definition trading_date :: "nat \<Rightarrow> date" where
  "trading_date i = Date (2020 + int (i div 336)) (1 + int (i mod 336 div 28)) (1 + int (i mod 28))"

definition trading_day :: "nat \<Rightarrow> row" where
  "trading_day i = [''Date'' \<mapsto> PDate (trading_date i), ''Open'' \<mapsto> PFloat 118000,
     ''High'' \<mapsto> PFloat 119000, ''Low'' \<mapsto> PFloat 117000, ''Close'' \<mapsto> PFloat 118500,
     ''Volume'' \<mapsto> PInt (int i), ''year'' \<mapsto> PInt (2020 + int (i div 336)),
     ''month'' \<mapsto> PInt (1 + int (i mod 336 div 28)), ''day'' \<mapsto> PInt (1 + int (i mod 28)),
     ''rentabilidade'' \<mapsto> PNaN]"

definition history :: "row list" where
  "history = map trading_day [0..<450]"

definition week :: "row list" where
  "week = [trading_day 0, trading_day 1, trading_day 2, trading_day 3, trading_day 4]"

text \<open>A store that holds outdated rows for the first five days and whose third
  statement fails at its second parameter set; the same store after the first
  update batch of two records.\<close>

definition stale_fields :: params where
  "stale_fields = [PFloat 1, PFloat 1, PFloat 1, PFloat 1, PInt 0, PInt 2020, PInt 1, PInt 1,
     PNone, PNone, PNone, PNone, PNone, PNone]"

definition written :: "nat \<Rightarrow> params" where
  "written i = [PFloat 118000, PFloat 119000, PFloat 117000, PFloat 118500, PInt (int i),
     PInt 2020, PInt 1, PInt (1 + int i), PNone, PNone, PNone, PNone, PNone, PNone]"

definition stale_week :: table where
  "stale_week = [(trading_date 0, stale_fields), (trading_date 1, stale_fields),
     (trading_date 2, stale_fields), (trading_date 3, stale_fields),
     (trading_date 4, stale_fields)]"

definition out_of_range :: mysql_error where
  "out_of_range = ''1264 (22003): Out of range value for column''"

definition failing_store :: session where
  "failing_store = \<lparr>durable = stale_week, working = stale_week,
     faults = [None, None, Some (1, out_of_range)], found_rows = True, log = []\<rparr>"

definition after_first_batch :: session where
  "after_first_batch = \<lparr>durable = [(trading_date 0, written 0), (trading_date 1, written 1),
       (trading_date 2, stale_fields), (trading_date 3, stale_fields),
       (trading_date 4, stale_fields)],
     working = [(trading_date 0, written 0), (trading_date 1, written 1),
       (trading_date 2, stale_fields), (trading_date 3, stale_fields),
       (trading_date 4, stale_fields)],
     faults = [Some (1, out_of_range)], found_rows = True,
     log = [Execute select_dates_sql [],
            Executemany update_sql
              (clean [update_tuple parse_jan (trading_day 0), update_tuple parse_jan (trading_day 1)]),
            Commit]\<rparr>"

section \<open>Properties\<close>

declare connect_loop.simps [simp del]
declare batch_loop.simps [simp del]

subsection \<open>Calls that do nothing\<close>

text \<open>
  C10. For every query text, \<^verbatim>\<open>execute_many\<close> on an empty list of parameter
  sets returns 0 and leaves the manager, and with it the connection, the open
  transaction, the committed rows and the call log, exactly as it was: nothing
  is executed and nothing is committed.
\<close>

theorem execute_many_empty: "execute_many query [] m = (Inr 0, m)"
  by (simp add: execute_many_def)

text \<open>
  C6. On an empty input \<^verbatim>\<open>insert_ibovespa_data\<close> returns 0 and the manager is
  unchanged: the call log of the session has no new entry, so no statement at all
  is submitted (not even the key query, which would be the only one allowed) and
  the store is as before.
\<close>

theorem insert_ibovespa_data_empty:
  "insert_ibovespa_data strptime [] batch_size m = (Inr 0, m)"
  by (simp add: insert_ibovespa_data_def)

subsection \<open>connect\<close>

text \<open>
  C9. With \<open>max_retries \<le> 0\<close> the loop body never runs: no attempt is made (the
  trace is empty), the manager is unchanged, and the exception is the
  \<^verbatim>\<open>ConnectionError\<close> with the fixed message, carrying no driver error.
\<close>

theorem connect_no_attempt:
  "max_retries \<le> 0 \<Longrightarrow>
     connect env max_retries retry_delay m
       = (Inl (ConnectionError connect_failure_msg), m, [])"
  unfolding connect_def by (subst connect_loop.simps) simp

theorem connect_no_attempt_witness:
  "(-1::int) \<le> 0 \<and> connect unreachable (-1) 2 \<lparr>conn = None\<rparr>
       = (Inl (ConnectionError connect_failure_msg), \<lparr>conn = None\<rparr>, [])"
  using connect_no_attempt [of "-1" unreachable 2 "\<lparr>conn = None\<rparr>"] by simp

lemma connect_loop_fail:
  "\<lbrakk> 0 \<le> a; 0 \<le> d; \<forall>k. nat a \<le> k \<and> int k < mx \<longrightarrow> env k = Inl (errs k); n = nat (mx - a) \<rbrakk> \<Longrightarrow>
   connect_loop env mx d a le m tr =
     (Inl (if a < mx then Error (errs (nat mx - 1))
           else (case le of Some e \<Rightarrow> Error e | None \<Rightarrow> ConnectionError connect_failure_msg)),
      m, tr @ retry_trace n d)"
proof (induction n arbitrary: a le tr)
  case 0
  then show ?case by (subst connect_loop.simps) simp
next
  case (Suc n)
  have a0: "0 \<le> a" and d0: "\<not> d < 0" using Suc.prems by simp_all
  have alt: "a < mx" using Suc.prems by linarith
  have e: "env (nat a) = Inl (errs (nat a))" using Suc.prems(3) alt a0 by simp
  have n: "n = nat (mx - (a + 1))" using Suc.prems by linarith
  have all: "\<forall>k. nat (a + 1) \<le> k \<and> int k < mx \<longrightarrow> env k = Inl (errs k)"
    using Suc.prems(3) a0 by (simp add: nat_le_iff)
  have ih: "connect_loop env mx d (a + 1) (Some (errs (nat a))) m tr' =
     (Inl (if a + 1 < mx then Error (errs (nat mx - 1)) else Error (errs (nat a))), m,
      tr' @ retry_trace n d)" for tr'
    using Suc.IH [of "a + 1" "Some (errs (nat a))" tr', OF _ Suc.prems(2) all n] a0 by simp
  show ?case
  proof (cases "a + 1 < mx")
    case True
    then have "0 < n" using n by linarith
    then obtain n' where n': "n = Suc n'" by (cases n) auto
    show ?thesis
      by (subst connect_loop.simps) (simp add: alt e True d0 ih n')
  next
    case False
    then have z: "n = 0" and l: "nat mx - Suc 0 = nat a" using n alt a0 by linarith+
    show ?thesis
      by (subst connect_loop.simps) (simp add: alt e False ih z l)
  qed
qed

lemma connect_loop_success:
  "\<lbrakk> 0 \<le> a; 0 \<le> d; \<forall>k. nat a \<le> k \<and> k < j \<longrightarrow> env k = Inl (errs k); env j = Inr s;
     nat a \<le> j; int j < mx; n = j - nat a \<rbrakk> \<Longrightarrow>
   connect_loop env mx d a le m tr = (Inr (), m\<lparr>conn := Some s\<rparr>, tr @ retry_trace (Suc n) d)"
proof (induction n arbitrary: a le tr)
  case 0
  then have "nat a = j" by simp
  then show ?case
    by (subst connect_loop.simps) (use 0 in simp)
next
  case (Suc n)
  have a0: "0 \<le> a" and d0: "\<not> d < 0" using Suc.prems by simp_all
  have lt: "nat a < j" using Suc.prems by linarith
  have alt: "a < mx" "a + 1 < mx" using Suc.prems lt by linarith+
  have e: "env (nat a) = Inl (errs (nat a))" using Suc.prems(3) lt by simp
  have all: "\<forall>k. nat (a + 1) \<le> k \<and> k < j \<longrightarrow> env k = Inl (errs k)"
    using Suc.prems(3) a0 by (simp add: nat_le_iff)
  have le': "nat (a + 1) \<le> j" using lt a0 by linarith
  have n: "n = j - nat (a + 1)" using Suc.prems(7) a0 by linarith
  have ih: "connect_loop env mx d (a + 1) (Some (errs (nat a))) m tr' =
     (Inr (), m\<lparr>conn := Some s\<rparr>, tr' @ retry_trace (Suc n) d)" for tr'
    using Suc.IH [of "a + 1" "Some (errs (nat a))" tr',
        OF _ Suc.prems(2) all Suc.prems(4) le' Suc.prems(6) n] a0
    by simp
  show ?case
    by (subst connect_loop.simps) (simp add: alt e d0 ih)
qed

text \<open>
  C5, as the code has it. \<^verbatim>\<open>max_retries\<close> bounds the attempts, the first one
  included, and the delay is slept between consecutive attempts only. When all
  \<open>max_retries \<ge> 1\<close> attempts fail with driver errors, the exception raised is the
  last driver error itself, not a \<^verbatim>\<open>ConnectionError\<close>; the manager is unchanged.
  When attempt number \<open>j < max_retries\<close> is the first to succeed, the call returns
  after \<open>j + 1\<close> attempts with the connection stored.
\<close>

theorem connect_retry:
  assumes "0 \<le> retry_delay"
  shows "(0 < max_retries \<and> (\<forall>k. int k < max_retries \<longrightarrow> env k = Inl (errs k)) \<longrightarrow>
            connect env max_retries retry_delay m
              = (Inl (Error (errs (nat max_retries - 1))), m,
                 retry_trace (nat max_retries) retry_delay))
       \<and> (int j < max_retries \<and> (\<forall>k < j. env k = Inl (errs k)) \<and> env j = Inr s \<longrightarrow>
            connect env max_retries retry_delay m
              = (Inr (), m\<lparr>conn := Some s\<rparr>, retry_trace (Suc j) retry_delay))"
proof (intro conjI impI)
  assume "0 < max_retries \<and> (\<forall>k. int k < max_retries \<longrightarrow> env k = Inl (errs k))"
  then show "connect env max_retries retry_delay m
              = (Inl (Error (errs (nat max_retries - 1))), m,
                 retry_trace (nat max_retries) retry_delay)"
    unfolding connect_def
    using connect_loop_fail [of 0 retry_delay max_retries env errs "nat max_retries" None m "[]"]
      assms
    by simp
next
  assume "int j < max_retries \<and> (\<forall>k < j. env k = Inl (errs k)) \<and> env j = Inr s"
  then show "connect env max_retries retry_delay m
              = (Inr (), m\<lparr>conn := Some s\<rparr>, retry_trace (Suc j) retry_delay)"
    unfolding connect_def
    using connect_loop_success [of 0 retry_delay j env errs s max_retries j None m "[]"] assms
    by simp
qed

theorem connect_retry_witness:
  "connect down_thrice 2 5 \<lparr>conn = None\<rparr>
     = (Inl (Error ''second''), \<lparr>conn = None\<rparr>, [Attempt, Sleep 5, Attempt])
   \<and> connect up_at_second 3 5 \<lparr>conn = None\<rparr>
     = (Inr (), \<lparr>conn = Some empty_session\<rparr>, [Attempt, Sleep 5, Attempt])"
proof -
  have d: "(0::int) \<le> 5" by simp
  have f: "0 < (2::int) \<and> (\<forall>k. int k < 2 \<longrightarrow>
             down_thrice k = Inl ((\<lambda>k. if k = 0 then ''first'' else ''second'') k))"
    by (auto simp: down_thrice_def)
  have u: "int 1 < 3 \<and> (\<forall>k < 1. up_at_second k = Inl ((\<lambda>k. ''2003: first call refused'') k))
             \<and> up_at_second 1 = Inr empty_session"
    by (simp add: up_at_second_def)
  from connect_retry [OF d, of 2 down_thrice "\<lambda>k. if k = 0 then ''first'' else ''second''"
      "\<lparr>conn = None\<rparr>" 0 empty_session] f
  have 1: "connect down_thrice 2 5 \<lparr>conn = None\<rparr>
     = (Inl (Error ''second''), \<lparr>conn = None\<rparr>, [Attempt, Sleep 5, Attempt])"
    by (simp add: numeral_2_eq_2)
  from connect_retry [OF d, of 3 up_at_second "\<lambda>k. ''2003: first call refused''"
      "\<lparr>conn = None\<rparr>" 1 empty_session] u
  have 2: "connect up_at_second 3 5 \<lparr>conn = None\<rparr>
     = (Inr (), \<lparr>conn = Some empty_session\<rparr>, [Attempt, Sleep 5, Attempt])"
    by simp
  from 1 2 show ?thesis by simp
qed

text \<open>
  The claim as the specification words it fails: three failing attempts end in
  the third driver error, which is no \<^verbatim>\<open>ConnectionError\<close>.
\<close>

theorem connect_raises_driver_error:
  "connect down_thrice 3 2 \<lparr>conn = None\<rparr>
     = (Inl (Error ''third''), \<lparr>conn = None\<rparr>, [Attempt, Sleep 2, Attempt, Sleep 2, Attempt])
   \<and> \<not> is_ConnectionError (Error ''third'')"
  unfolding connect_def
  by (simp add: connect_loop.simps down_thrice_def)

subsection \<open>Statements and parameters\<close>

lemma select_is_select: "starts_with_word select_dates_sql ''SELECT''"
  by (simp add: starts_with_word_def select_dates_sql_def startswith_def upper_def strip_def
      is_space_def upper_char_def)

lemma insert_is_insert: "starts_with_word insert_sql ''INSERT''"
  by (simp add: starts_with_word_def insert_sql_def startswith_def upper_def strip_def
      is_space_def upper_char_def)

lemma update_is_update:
  "\<not> starts_with_word update_sql ''INSERT''" "starts_with_word update_sql ''UPDATE''"
  by (simp_all add: starts_with_word_def update_sql_def startswith_def upper_def strip_def
      is_space_def upper_char_def)

lemma nan_to_none_cases: "nan_to_none v = (if v = PNaN \<or> v = PNone then PNone else v)"
  by (cases v) (simp_all add: nan_to_none_def)

lemma nan_to_none_not_nan: "nan_to_none v \<noteq> PNaN"
  by (simp add: nan_to_none_cases)

lemma those_map_Some:
  "those (map f xs) = Some ys \<longleftrightarrow> (\<forall>x \<in> set xs. f x \<noteq> None) \<and> ys = map (\<lambda>x. the (f x)) xs"
  by (induction xs arbitrary: ys) (auto split: option.splits)

lemma execute_query_log:
  assumes "conn m = Some s"
  shows "\<exists>s' rest. conn (snd (execute_query q ps m)) = Some s'
           \<and> log s' = log s @ Execute q (map nan_to_none ps) # rest"
  using assms
  by (auto simp: execute_query_def cursor_execute_def conn_rollback_def conn_commit_def Let_def)

lemma execute_many_log:
  assumes "conn m = Some s" "batch \<noteq> []"
  shows "\<exists>s' rest. conn (snd (execute_many q batch m)) = Some s'
           \<and> log s' = log s @ Executemany q (map (map nan_to_none) batch) # rest"
  using assms
  by (auto simp: execute_many_def cursor_executemany_def conn_rollback_def conn_commit_def Let_def
      split: prod.splits sum.splits)

lemma insert_many_Inr:
  "insert_many f batch t = (Inr n, t') \<Longrightarrow>
     t' = t @ map (\<lambda>p. the (insert_args p)) batch \<and> (\<forall>p \<in> set batch. insert_args p \<noteq> None)
     \<and> n = int (length batch)"
  by (auto simp: insert_many_def those_map_Some split: if_splits option.splits)

lemma execute_many_insert_stored:
  assumes "execute_many insert_sql batch m = (Inr n, m')" "PIso d # fs \<in> set batch"
  shows "\<exists>s'. conn m' = Some s' \<and> (d, map nan_to_none fs) \<in> set (durable s')"
proof -
  from assms(2) have ne: "batch \<noteq> []" by auto
  from assms(1) ne obtain s where s: "conn m = Some s"
    by (auto simp: execute_many_def split: option.splits)
  let ?clean = "map (map nan_to_none) batch"
  obtain r s1 where c: "cursor_executemany insert_sql ?clean s = (r, s1)" by force
  with assms(1) ne s obtain k where r: "r = Inr k" and m': "m' = m\<lparr>conn := Some (conn_commit s1)\<rparr>"
    by (auto simp: execute_many_def split: sum.splits)
  from c r obtain t' where im: "insert_many (next_fault s) ?clean (working s) = (Inr k, t')"
     and s1: "working s1 = t'"
    by (auto simp: cursor_executemany_def insert_is_insert Let_def split: prod.splits)
  from insert_many_Inr [OF im] have t': "t' = working s @ map (\<lambda>p. the (insert_args p)) ?clean"
    by simp
  have "(\<lambda>p. the (insert_args (map nan_to_none p))) (PIso d # fs)
          \<in> (\<lambda>p. the (insert_args (map nan_to_none p))) ` set batch"
    using assms(2) by (rule imageI)
  then have "(d, map nan_to_none fs) \<in> set t'"
    unfolding t' by (simp add: nan_to_none_cases comp_def)
  then have "(d, map nan_to_none fs) \<in> set (durable (conn_commit s1))"
    by (simp add: conn_commit_def s1)
  then show ?thesis using m' by simp
qed

subsection \<open>No not-a-number reaches the rows\<close>

lemma stored_append [simp]: "stored (t @ u) = stored t \<union> stored u"
  by (simp add: stored_def)

lemma stored_update_row: "stored (update_row d fs t) \<subseteq> stored t \<union> set fs"
  by (auto simp: stored_def update_row_def split: if_splits)

lemma update_args_set: "update_args p = Some (d, fs) \<Longrightarrow> set fs \<subseteq> set p"
proof -
  assume "update_args p = Some (d, fs)"
  then have "rev p = PIso d # rev fs"
    by (auto simp: update_args_def split: list.splits pvalue.splits)
  then have "set (rev p) = set (PIso d # rev fs)" by simp
  then show ?thesis by auto
qed

lemma insert_args_set: "insert_args p = Some (d, fs) \<Longrightarrow> set fs \<subseteq> set p"
  by (cases p rule: insert_args.cases) auto

lemma update_many_stored:
  "stored (snd (update_many fr f i batch t n)) \<subseteq> stored t \<union> (\<Union>p \<in> set batch. set p)"
proof (induction batch arbitrary: i t n)
  case Nil
  then show ?case by simp
next
  case (Cons p ps)
  show ?case
  proof (cases "strikes f i")
    case True
    then show ?thesis by simp
  next
    case False
    show ?thesis
    proof (cases "update_args p")
      case None
      with False show ?thesis by simp
    next
      case (Some a)
      obtain d fs where a: "a = (d, fs)" by (cases a)
      have "stored (snd (update_many fr f (Suc i) ps (update_row d fs t) (n + affected fr d fs t)))
              \<subseteq> stored (update_row d fs t) \<union> (\<Union>p \<in> set ps. set p)"
        by (rule Cons.IH)
      also have "\<dots> \<subseteq> (stored t \<union> set fs) \<union> (\<Union>p \<in> set ps. set p)"
        using stored_update_row [of d fs t] by auto
      also have "\<dots> \<subseteq> stored t \<union> (\<Union>p \<in> set (p # ps). set p)"
        using update_args_set [of p d fs] Some a by auto
      finally show ?thesis using False Some a by simp
    qed
  qed
qed

lemma insert_many_stored:
  "stored (snd (insert_many f batch t)) \<subseteq> stored t \<union> (\<Union>p \<in> set batch. set p)"
proof (cases "insert_many f batch t")
  case (Pair r t')
  show ?thesis
  proof (cases r)
    case (Inl e)
    with Pair have "t' = t" by (auto simp: insert_many_def split: if_splits option.splits)
    with Pair show ?thesis by auto
  next
    case (Inr n)
    with Pair insert_many_Inr [of f batch t n t']
    have t': "t' = t @ map (\<lambda>p. the (insert_args p)) batch"
      and ok: "\<forall>p \<in> set batch. insert_args p \<noteq> None" by simp_all
    have "stored (map (\<lambda>p. the (insert_args p)) batch) \<subseteq> (\<Union>p \<in> set batch. set p)"
    proof
      fix v assume "v \<in> stored (map (\<lambda>p. the (insert_args p)) batch)"
      then obtain p where p: "p \<in> set batch" and v: "v \<in> set (snd (the (insert_args p)))"
        by (auto simp: stored_def)
      from ok p obtain d fs where "insert_args p = Some (d, fs)" by fastforce
      with v insert_args_set [of p d fs] have "v \<in> set p" by auto
      with p show "v \<in> (\<Union>p \<in> set batch. set p)" by blast
    qed
    with Pair t' show ?thesis by auto
  qed
qed

lemma cursor_executemany_tables:
  "durable (snd (cursor_executemany q batch s)) = durable s"
  "stored (working (snd (cursor_executemany q batch s)))
     \<subseteq> stored (working s) \<union> (\<Union>p \<in> set batch. set p)"
proof -
  show "durable (snd (cursor_executemany q batch s)) = durable s"
    by (simp add: cursor_executemany_def Let_def split: prod.splits)
  show "stored (working (snd (cursor_executemany q batch s)))
     \<subseteq> stored (working s) \<union> (\<Union>p \<in> set batch. set p)"
    using insert_many_stored [of "next_fault s" batch "working s"]
      update_many_stored [of "found_rows s" "next_fault s" 0 batch "working s" 0]
    by (auto simp: cursor_executemany_def Let_def split: prod.splits if_splits)
qed

lemma clean_no_nan: "PNaN \<notin> (\<Union>p \<in> set (map (map nan_to_none) batch). set p)"
  by (auto simp: nan_to_none_cases split: if_splits)

lemma execute_many_nan_free:
  assumes "nan_free m"
  shows "nan_free (snd (execute_many q batch m))"
proof (cases "batch = [] \<or> conn m = None")
  case True
  then show ?thesis using assms by (auto simp: execute_many_def)
next
  case False
  then obtain s where s: "conn m = Some s" and ne: "batch \<noteq> []" by auto
  let ?clean = "map (map nan_to_none) batch"
  obtain r s1 where c: "cursor_executemany q ?clean s = (r, s1)" by force
  have d: "durable s1 = durable s"
    using cursor_executemany_tables(1) [of q ?clean s] c by simp
  have "stored (working s1) \<subseteq> stored (working s) \<union> (\<Union>p \<in> set ?clean. set p)"
    using cursor_executemany_tables(2) [of q ?clean s] c by simp
  moreover have "PNaN \<notin> stored (working s)" "PNaN \<notin> stored (durable s)"
    using assms s by (simp_all add: nan_free_def)
  ultimately have w: "PNaN \<notin> stored (working s1)" "PNaN \<notin> stored (durable s1)"
    using clean_no_nan [of batch] d by auto
  show ?thesis
    using s ne c w
    by (cases r) (simp_all add: execute_many_def nan_free_def conn_commit_def conn_rollback_def)
qed

lemma batch_loop_nan_free:
  "nan_free m \<Longrightarrow> nan_free (snd (batch_loop q queue b i n m))"
proof (induction q queue b i n m rule: batch_loop.induct)
  case (1 query queue batch_size i done_rows m)
  show ?case
  proof (cases "batch_size = 0 \<or> length queue \<le> i")
    case True
    then show ?thesis using "1.prems" by (subst batch_loop.simps) auto
  next
    case False
    let ?batch = "take batch_size (drop i queue)"
    show ?thesis
    proof (cases "?batch = []")
      case True
      then show ?thesis
        using False "1.IH"(1) [OF False refl True "1.prems"]
        by (subst batch_loop.simps) (simp add: Let_def)
    next
      case ne: False
      obtain r m1 where e: "execute_many query ?batch m = (r, m1)" by force
      have nf: "nan_free m1" using execute_many_nan_free [OF "1.prems", of query ?batch] e by simp
      show ?thesis
      proof (cases r)
        case (Inl x)
        then show ?thesis using False ne e nf
          by (subst batch_loop.simps) (simp add: Let_def)
      next
        case (Inr k)
        then show ?thesis
          using False ne e "1.IH"(2) [OF False refl ne e [symmetric] Inr nf]
          by (subst batch_loop.simps) (simp add: Let_def)
      qed
    qed
  qed
qed

lemma run_batches_nan_free: "nan_free m \<Longrightarrow> nan_free (snd (run_batches q queue b m))"
  by (simp add: run_batches_def batch_loop_nan_free)

lemma execute_query_nan_free: "nan_free m \<Longrightarrow> nan_free (snd (execute_query q ps m))"
  by (auto simp: execute_query_def nan_free_def cursor_execute_def conn_commit_def
      conn_rollback_def Let_def split: option.splits)

lemma get_existing_dates_nan_free: "nan_free m \<Longrightarrow> nan_free (snd (get_existing_dates m))"
  using execute_query_nan_free [of m select_dates_sql "[]"]
  by (auto simp: get_existing_dates_def split: prod.splits sum.splits exn.splits option.splits)

lemma on_error_nan_free: "nan_free m \<Longrightarrow> nan_free (snd (on_error e m))"
  by (auto simp: on_error_def nan_free_def conn_rollback_def split: exn.splits option.splits)

lemma upsert_counts_nan_free:
  assumes "nan_free m"
  shows "nan_free (snd (upsert_counts sp data b m))"
proof -
  obtain r1 m1 where g: "get_existing_dates m = (r1, m1)" by force
  have n1: "nan_free m1" using get_existing_dates_nan_free [OF assms] g by simp
  show ?thesis
  proof (cases r1)
    case (Inl e)
    then show ?thesis using g on_error_nan_free [OF n1] by (simp add: upsert_counts_def)
  next
    case (Inr ex)
    show ?thesis
    proof (cases "prepare sp ex data [] []")
      case (Inl e)
      then show ?thesis using g Inr on_error_nan_free [OF n1] by (simp add: upsert_counts_def)
    next
      case pr: (Inr qs)
      obtain ins upd where qs: "qs = (ins, upd)" by (cases qs)
      obtain r2 m2 where i: "run_batches insert_sql ins b m1 = (r2, m2)" by force
      have n2: "nan_free m2" using run_batches_nan_free [OF n1, of insert_sql ins b] i by simp
      show ?thesis
      proof (cases r2)
        case (Inl e)
        then show ?thesis using g Inr pr qs i on_error_nan_free [OF n2]
          by (simp add: upsert_counts_def)
      next
        case i2: (Inr k)
        obtain r3 m3 where u: "run_batches update_sql upd b m2 = (r3, m3)" by force
        have n3: "nan_free m3" using run_batches_nan_free [OF n2, of update_sql upd b] u by simp
        show ?thesis using g Inr pr qs i i2 u n3 on_error_nan_free [OF n3]
          by (cases r3) (simp_all add: upsert_counts_def)
      qed
    qed
  qed
qed

lemma insert_ibovespa_data_nan_free:
  "nan_free m \<Longrightarrow> nan_free (snd (insert_ibovespa_data sp data b m))"
  using upsert_counts_nan_free [of m sp data b]
  by (auto simp: insert_ibovespa_data_def split: prod.splits sum.splits)

subsection \<open>The key inventory\<close>

lemmas run_defs = insert_ibovespa_data_def upsert_counts_def get_existing_dates_def
  execute_query_def execute_many_def cursor_execute_def cursor_executemany_def
  classify_row_def getitem_def row_get_def price_columns_def run_batches_def batch_loop.simps
  on_error_def conn_commit_def conn_rollback_def insert_many_def next_fault_def
  strikes_def strikes_within_def fault_error_def table_keys_def update_args_def update_row_def
  affected_def select_is_select insert_is_insert update_is_update nan_to_none_def Let_def

lemma those_first_column:
  "those (map (first_column \<circ> (\<lambda>(d, _). [PDate d])) t) = Some (map (\<lambda>r. PDate (fst r)) t)"
  by (induction t) (auto split: prod.splits)

lemma get_existing_dates_ok:
  assumes "conn m = Some s" "\<not> query_fails s"
  shows "get_existing_dates m =
     (Inr (PDate ` set (table_keys (working s))),
      m\<lparr>conn := Some (s\<lparr>faults := tl (faults s), log := log s @ [Execute select_dates_sql []]\<rparr>)\<rparr>)"
proof (cases "working s = []")
  case True
  then show ?thesis using assms
    by (simp add: get_existing_dates_def execute_query_def cursor_execute_def Let_def
        select_is_select query_fails_def table_keys_def)
next
  case False
  then show ?thesis using assms
    by (simp add: get_existing_dates_def execute_query_def cursor_execute_def Let_def
        select_is_select query_fails_def table_keys_def those_first_column image_image)
qed

lemma get_existing_dates_failed:
  assumes "conn m = Some s" "query_fails s"
  shows "get_existing_dates m =
     (Inr {},
      m\<lparr>conn := Some (conn_rollback
         (s\<lparr>faults := tl (faults s), log := log s @ [Execute select_dates_sql []]\<rparr>))\<rparr>)"
  using assms
  by (simp add: get_existing_dates_def execute_query_def cursor_execute_def Let_def
      query_fails_def)

text \<open>
  C8. On a live connection \<^verbatim>\<open>get_existing_dates\<close> always returns a set, never
  an exception: the set of the dates of all rows the session sees when the key
  query succeeds, and the empty set both when the table has no rows and when the
  query raises a driver error.
\<close>

theorem get_existing_dates_total:
  assumes "conn m = Some s"
  shows "(query_fails s \<longrightarrow> fst (get_existing_dates m) = Inr {})
       \<and> (\<not> query_fails s \<longrightarrow>
            fst (get_existing_dates m) = Inr (PDate ` set (table_keys (working s))))
       \<and> (working s = [] \<longrightarrow> fst (get_existing_dates m) = Inr {})"
proof (cases "query_fails s")
  case True
  then show ?thesis using get_existing_dates_failed [OF assms] by simp
next
  case False
  then show ?thesis using get_existing_dates_ok [OF assms] by (auto simp: table_keys_def)
qed

theorem get_existing_dates_total_witness:
  "fst (get_existing_dates \<lparr>conn = Some seeded\<rparr>) = Inr {PDate (Date 2024 1 2), PDate (Date 2024 1 3)}
   \<and> fst (get_existing_dates \<lparr>conn = Some seeded_failing\<rparr>) = Inr {}
   \<and> fst (get_existing_dates fresh) = Inr {}"
proof -
  have a: "conn \<lparr>conn = Some seeded\<rparr> = Some seeded"
    and b: "conn \<lparr>conn = Some seeded_failing\<rparr> = Some seeded_failing"
    and c: "conn fresh = Some empty_session"
    by (simp_all add: fresh_def)
  have 1: "\<not> query_fails seeded"
    by (simp add: query_fails_def seeded_def next_fault_def strikes_within_def)
  have 2: "query_fails seeded_failing"
    by (simp add: query_fails_def seeded_failing_def seeded_def next_fault_def strikes_within_def)
  have 3: "working empty_session = []" by (simp add: empty_session_def)
  have k: "PDate ` set (table_keys (working seeded)) = {PDate (Date 2024 1 2), PDate (Date 2024 1 3)}"
    by (simp add: seeded_def two_days_def table_keys_def)
  show ?thesis
    using get_existing_dates_total [OF a] get_existing_dates_total [OF b]
      get_existing_dates_total [OF c] 1 2 3 k
    by simp
qed

text \<open>
  C7. \<^verbatim>\<open>nan_to_none\<close> maps the not-a-number float and \<^verbatim>\<open>None\<close> to
  \<^verbatim>\<open>None\<close> and is the identity on every other value. The parameters that
  \<^verbatim>\<open>execute_query\<close> and \<^verbatim>\<open>execute_many\<close> hand to the cursor are the
  caller's parameters under \<^verbatim>\<open>nan_to_none\<close>. A parameter set committed by an
  \<^verbatim>\<open>INSERT\<close> batch is stored with every not-a-number column as null, and
  neither \<^verbatim>\<open>execute_many\<close> nor \<^verbatim>\<open>insert_ibovespa_data\<close> ever brings a
  not-a-number into the stored rows.
\<close>

theorem null_normalization:
  assumes "conn m = Some s" and "nan_free m"
  shows "nan_to_none v = (if v = PNaN \<or> v = PNone then PNone else v)
    \<and> (\<exists>s' rest. conn (snd (execute_query q ps m)) = Some s'
          \<and> log s' = log s @ Execute q (map nan_to_none ps) # rest)
    \<and> (batch \<noteq> [] \<longrightarrow>
         (\<exists>s' rest. conn (snd (execute_many q batch m)) = Some s'
            \<and> log s' = log s @ Executemany q (map (map nan_to_none) batch) # rest))
    \<and> (execute_many insert_sql batch m = (Inr n, m') \<and> PIso d # fs \<in> set batch \<longrightarrow>
         (\<exists>s'. conn m' = Some s' \<and> (d, map nan_to_none fs) \<in> set (durable s')))
    \<and> nan_free (snd (execute_many q batch m))
    \<and> nan_free (snd (insert_ibovespa_data strptime data batch_size m))"
  using nan_to_none_cases [of v] execute_query_log [OF assms(1), of q ps]
    execute_many_log [OF assms(1), of batch q]
    execute_many_insert_stored [of batch m n m' d fs]
    execute_many_nan_free [OF assms(2), of q batch]
    insert_ibovespa_data_nan_free [OF assms(2), of strptime data batch_size]
  by blast

theorem null_normalization_witness:
  "nan_to_none PNaN = PNone \<and> nan_to_none (PFloat 132697) = PFloat 132697
   \<and> (\<exists>s'. conn (snd (execute_many insert_sql [PIso (Date 2024 1 2) # first_day_params] fresh)) = Some s'
         \<and> (Date 2024 1 2, [PFloat 132697, PFloat 133576, PFloat 132250, PFloat 132697,
               PInt 8437300, PInt 2024, PInt 1, PInt 2, PNone, PNone, PNone, PNone, PNone, PNone])
             \<in> set (durable s'))
   \<and> nan_free (snd (insert_ibovespa_data parse_jan [first_day] 200 fresh))"
proof -
  have c: "conn fresh = Some empty_session" by (simp add: fresh_def)
  have f: "nan_free fresh" by (simp add: nan_free_def fresh_def empty_session_def stored_def)
  obtain m' where e: "execute_many insert_sql [PIso (Date 2024 1 2) # first_day_params] fresh
                        = (Inr 1, m')"
    by (simp add: run_defs fresh_def empty_session_def first_day_params_def)
  have i: "PIso (Date 2024 1 2) # first_day_params \<in> set [PIso (Date 2024 1 2) # first_day_params]"
    by simp
  have n: "map nan_to_none first_day_params
     = [PFloat 132697, PFloat 133576, PFloat 132250, PFloat 132697,
               PInt 8437300, PInt 2024, PInt 1, PInt 2, PNone, PNone, PNone, PNone, PNone, PNone]"
    by (simp add: first_day_params_def nan_to_none_def)
  show ?thesis
    using null_normalization [OF c f, of PNaN insert_sql "[]"
        "[PIso (Date 2024 1 2) # first_day_params]" 1 m' "Date 2024 1 2" first_day_params
        parse_jan "[first_day]" 200]
      null_normalization [OF c f, of "PFloat 132697" insert_sql "[]"
        "[PIso (Date 2024 1 2) # first_day_params]" 1 m' "Date 2024 1 2" first_day_params
        parse_jan "[first_day]" 200]
      e i n
    by simp
qed

subsection \<open>Partition into inserts and updates\<close>

lemma classify_row_well_formed:
  assumes "well_formed sp r"
  shows "classify_row sp ex r =
     Inr (if PDate (key_of sp r) \<in> ex then Update (update_tuple sp r)
          else Insert (insert_tuple sp r))"
proof -
  from assms obtain v where v: "getitem r ''Date'' = Inr v"
    by (auto simp: well_formed_def row_key_def split: sum.splits)
  with assms obtain d where d: "to_date_obj sp v = Inr (PDate d)"
    by (auto simp: well_formed_def row_key_def split: sum.splits pvalue.splits)
  from assms obtain vs where vs: "getitems r price_columns = Inr vs"
    by (auto simp: well_formed_def row_fields_def split: sum.splits)
  have k: "key_of sp r = d" by (simp add: key_of_def row_key_def v d)
  have f: "the (row_fields r) = vs @ map (row_get r) derived_columns"
    by (simp add: row_fields_def vs)
  show ?thesis
    unfolding classify_row_def insert_tuple_def update_tuple_def k f
    by (simp add: v d vs derived_columns_def Let_def)
qed

lemma prepare_well_formed:
  assumes "\<forall>r \<in> set data. well_formed sp r"
  shows "prepare sp ex data ins upd =
     Inr (ins @ map (insert_tuple sp) (filter (\<lambda>r. PDate (key_of sp r) \<notin> ex) data),
          upd @ map (update_tuple sp) (filter (\<lambda>r. PDate (key_of sp r) \<in> ex) data))"
  using assms
proof (induction data arbitrary: ins upd)
  case Nil
  then show ?case by simp
next
  case (Cons r rs)
  then have wf: "well_formed sp r" and rest: "\<forall>r \<in> set rs. well_formed sp r" by simp_all
  show ?case
    by (simp add: classify_row_well_formed [OF wf] Cons.IH [OF rest])
qed

lemma length_filter_keys:
  assumes "distinct (map k xs)" "set (map k xs) = D \<union> E" "D \<inter> E = {}"
  shows "length (filter (\<lambda>x. k x \<in> D) xs) = card D"
    and "length (filter (\<lambda>x. k x \<notin> D) xs) = card E"
proof -
  have d: "distinct (filter (\<lambda>y. y \<in> D) (map k xs))" "distinct (filter (\<lambda>y. y \<notin> D) (map k xs))"
    using assms(1) by simp_all
  have "length (filter (\<lambda>x. k x \<in> D) xs) = length (filter (\<lambda>y. y \<in> D) (map k xs))"
    by (simp add: filter_map comp_def)
  also have "\<dots> = card (set (filter (\<lambda>y. y \<in> D) (map k xs)))"
    using distinct_card [OF d(1)] by simp
  also have "set (filter (\<lambda>y. y \<in> D) (map k xs)) = D"
    using assms(2) by auto
  finally show "length (filter (\<lambda>x. k x \<in> D) xs) = card D" .
  have "length (filter (\<lambda>x. k x \<notin> D) xs) = length (filter (\<lambda>y. y \<notin> D) (map k xs))"
    by (simp add: filter_map comp_def)
  also have "\<dots> = card (set (filter (\<lambda>y. y \<notin> D) (map k xs)))"
    using distinct_card [OF d(2)] by simp
  also have "set (filter (\<lambda>y. y \<notin> D) (map k xs)) = E"
    using assms(2,3) by auto
  finally show "length (filter (\<lambda>x. k x \<notin> D) xs) = card E" .
qed

text \<open>
  C1. For every sequence of well-formed records and every snapshot, the queues
  built by the loop are: the records whose date is not in the snapshot, in input
  order, each as date text followed by its fields, in the insert queue; the
  records whose date is in the snapshot, in input order, each as its fields
  followed by the date text, in the update queue. When the snapshot is read from
  a store holding the dates \<open>D\<close> and the records carry pairwise distinct dates
  that make up \<open>D\<close> and a disjoint set \<open>E\<close>, \<open>card D\<close> records are queued for
  update and \<open>card E\<close> for insert.
\<close>

theorem partition_correct:
  assumes "\<forall>r \<in> set data. well_formed strptime r"
  shows "prepare strptime existing data [] [] =
           Inr (map (insert_tuple strptime)
                  (filter (\<lambda>r. PDate (key_of strptime r) \<notin> existing) data),
                map (update_tuple strptime)
                  (filter (\<lambda>r. PDate (key_of strptime r) \<in> existing) data))
       \<and> (conn m = Some s \<and> \<not> query_fails s \<and> fst (get_existing_dates m) = Inr existing
            \<and> distinct (map (key_of strptime) data)
            \<and> set (map (key_of strptime) data) = set (table_keys (working s)) \<union> E
            \<and> set (table_keys (working s)) \<inter> E = {}
          \<longrightarrow> (\<exists>inserts updates. prepare strptime existing data [] [] = Inr (inserts, updates)
                 \<and> length updates = card (set (table_keys (working s)))
                 \<and> length inserts = card E))"
proof (intro conjI impI)
  show p: "prepare strptime existing data [] [] =
           Inr (map (insert_tuple strptime)
                  (filter (\<lambda>r. PDate (key_of strptime r) \<notin> existing) data),
                map (update_tuple strptime)
                  (filter (\<lambda>r. PDate (key_of strptime r) \<in> existing) data))"
    using prepare_well_formed [OF assms, of existing "[]" "[]"] by simp
  assume h: "conn m = Some s \<and> \<not> query_fails s \<and> fst (get_existing_dates m) = Inr existing
            \<and> distinct (map (key_of strptime) data)
            \<and> set (map (key_of strptime) data) = set (table_keys (working s)) \<union> E
            \<and> set (table_keys (working s)) \<inter> E = {}"
  let ?D = "set (table_keys (working s))"
  from h have ex: "existing = PDate ` ?D"
    using get_existing_dates_ok [of m s] by simp
  have mem: "PDate d \<in> existing \<longleftrightarrow> d \<in> ?D" for d
    unfolding ex by auto
  from h length_filter_keys [of "key_of strptime" data ?D E]
  have "length (filter (\<lambda>r. key_of strptime r \<in> ?D) data) = card ?D"
    and "length (filter (\<lambda>r. key_of strptime r \<notin> ?D) data) = card E"
    by simp_all
  then show "\<exists>inserts updates. prepare strptime existing data [] [] = Inr (inserts, updates)
                 \<and> length updates = card (set (table_keys (working s)))
                 \<and> length inserts = card E"
    unfolding p by (simp add: mem)
qed

lemmas row_defs = well_formed_def row_key_def row_fields_def key_of_def insert_tuple_def
  update_tuple_def getitem_def row_get_def price_columns_def derived_columns_def
  first_day_def second_day_def third_day_def parse_jan_def

theorem partition_correct_witness:
  "prepare parse_jan {PDate (Date 2024 1 2), PDate (Date 2024 1 3)}
      [first_day, third_day, second_day] [] [] =
     Inr ([[PIso (Date 2024 1 4), PFloat 132834, PFloat 132885, PFloat 131024, PFloat 131226,
            PInt 9097700, PInt 2024, PInt 1, PInt 4, PFloat (-1.2), PNone, PNone, PNone, PNone, PNone]],
          [[PFloat 132697, PFloat 133576, PFloat 132250, PFloat 132697, PInt 8437300, PInt 2024,
            PInt 1, PInt 2, PNaN, PNaN, PNone, PNone, PNone, PNone, PIso (Date 2024 1 2)],
           [PFloat 132697, PFloat 133576, PFloat 132250, PFloat 132834, PInt 8437300, PInt 2024,
            PInt 1, PInt 3, PFloat 0.1, PNone, PNone, PNone, PNone, PNone, PIso (Date 2024 1 3)]])
   \<and> (\<exists>inserts updates.
         prepare parse_jan {PDate (Date 2024 1 2), PDate (Date 2024 1 3)}
           [first_day, third_day, second_day] [] [] = Inr (inserts, updates)
         \<and> length updates = 2 \<and> length inserts = 1)"
proof -
  let ?data = "[first_day, third_day, second_day]"
  let ?ex = "{PDate (Date 2024 1 2), PDate (Date 2024 1 3)}"
  have wf: "\<forall>r \<in> set ?data. well_formed parse_jan r"
    by (simp add: row_defs)
  have keys: "map (key_of parse_jan) ?data = [Date 2024 1 2, Date 2024 1 4, Date 2024 1 3]"
    by (simp add: row_defs)
  have tk: "set (table_keys (working seeded)) = {Date 2024 1 2, Date 2024 1 3}"
    by (simp add: seeded_def two_days_def table_keys_def)
  have h: "conn \<lparr>conn = Some seeded\<rparr> = Some seeded \<and> \<not> query_fails seeded
      \<and> fst (get_existing_dates \<lparr>conn = Some seeded\<rparr>) = Inr ?ex
      \<and> distinct (map (key_of parse_jan) ?data)
      \<and> set (map (key_of parse_jan) ?data) = set (table_keys (working seeded)) \<union> {Date 2024 1 4}
      \<and> set (table_keys (working seeded)) \<inter> {Date 2024 1 4} = {}"
    unfolding keys tk
    by (auto simp: query_fails_def seeded_def next_fault_def strikes_within_def two_days_def
        get_existing_dates_def execute_query_def cursor_execute_def select_is_select Let_def)
  have c: "card (set (table_keys (working seeded))) = 2" "card {Date 2024 1 4} = 1"
    unfolding tk by simp_all
  have t: "map (insert_tuple parse_jan) (filter (\<lambda>r. PDate (key_of parse_jan r) \<notin> ?ex) ?data)
      = [[PIso (Date 2024 1 4), PFloat 132834, PFloat 132885, PFloat 131024, PFloat 131226,
            PInt 9097700, PInt 2024, PInt 1, PInt 4, PFloat (-1.2), PNone, PNone, PNone, PNone, PNone]]"
    "map (update_tuple parse_jan) (filter (\<lambda>r. PDate (key_of parse_jan r) \<in> ?ex) ?data)
      = [[PFloat 132697, PFloat 133576, PFloat 132250, PFloat 132697, PInt 8437300, PInt 2024,
            PInt 1, PInt 2, PNaN, PNaN, PNone, PNone, PNone, PNone, PIso (Date 2024 1 2)],
           [PFloat 132697, PFloat 133576, PFloat 132250, PFloat 132834, PInt 8437300, PInt 2024,
            PInt 1, PInt 3, PFloat 0.1, PNone, PNone, PNone, PNone, PNone, PIso (Date 2024 1 3)]]"
    by (simp_all add: row_defs)
  from partition_correct [OF wf, of ?ex "\<lparr>conn = Some seeded\<rparr>" seeded "{Date 2024 1 4}"]
  show ?thesis
    unfolding t using h c by simp
qed

subsection \<open>Batches\<close>

declare chunks.simps [simp del]

lemma chunks_Nil [simp]: "chunks n [] = []"
  by (subst chunks.simps) simp

lemma chunks_step: "0 < n \<Longrightarrow> xs \<noteq> [] \<Longrightarrow> chunks n xs = take n xs # chunks n (drop n xs)"
  by (subst chunks.simps) simp

lemma concat_chunks: "0 < n \<Longrightarrow> concat (chunks n xs) = xs"
proof (induction n xs rule: chunks.induct)
  case (1 n xs)
  show ?case
  proof (cases "xs = []")
    case True
    then show ?thesis by simp
  next
    case False
    with 1 show ?thesis by (simp add: chunks_step)
  qed
qed

lemma chunks_bounds: "b \<in> set (chunks n xs) \<Longrightarrow> b \<noteq> [] \<and> length b \<le> n"
proof (induction n xs rule: chunks.induct)
  case (1 n xs)
  show ?case
  proof (cases "n = 0 \<or> xs = []")
    case True
    with "1.prems" show ?thesis by (subst (asm) chunks.simps) simp
  next
    case False
    with "1.prems" have "b = take n xs \<or> b \<in> set (chunks n (drop n xs))"
      by (subst (asm) chunks.simps) simp
    then show ?thesis
    proof
      assume "b = take n xs"
      with False show ?thesis by simp
    next
      assume "b \<in> set (chunks n (drop n xs))"
      with "1.IH" False show ?thesis by simp
    qed
  qed
qed

lemma chunks_450:
  assumes "length xs = 450"
  shows "map length (chunks 200 xs) = [200, 200, 50]"
proof -
  have 1: "xs \<noteq> []" "drop 200 xs \<noteq> []" "drop 200 (drop 200 xs) \<noteq> []"
    and 2: "drop 200 (drop 200 (drop 200 xs)) = []"
    using assms by auto
  show ?thesis
    using assms 1 2 by (simp add: chunks_step)
qed

lemma batch_loop_chunks:
  "0 < b \<Longrightarrow> batch_loop q queue b i n m = run_jobs (map (Pair q) (chunks b (drop i queue))) n m"
proof (induction q queue b i n m rule: batch_loop.induct)
  case (1 query queue batch_size i done_rows m)
  show ?case
  proof (cases "length queue \<le> i")
    case True
    then show ?thesis by (subst batch_loop.simps) simp
  next
    case False
    let ?batch = "take batch_size (drop i queue)"
    have g: "\<not> (batch_size = 0 \<or> length queue \<le> i)" using False "1.prems" by simp
    have ne: "?batch \<noteq> []" "drop i queue \<noteq> []" using False "1.prems" by simp_all
    have c: "chunks batch_size (drop i queue)
               = ?batch # chunks batch_size (drop (i + batch_size) queue)"
      using chunks_step [OF "1.prems" ne(2)] by (simp add: add.commute)
    obtain r m1 where e: "execute_many query ?batch m = (r, m1)" by force
    show ?thesis
    proof (cases r)
      case (Inl x)
      then show ?thesis using g ne e c
        by (subst batch_loop.simps) (simp add: Let_def)
    next
      case (Inr k)
      then show ?thesis
        using g ne e c "1.IH"(2) [OF g refl ne(1) e [symmetric] Inr "1.prems"]
        by (subst batch_loop.simps) (simp add: Let_def)
    qed
  qed
qed

lemma run_batches_chunks:
  "0 < b \<Longrightarrow> run_batches q queue b m = run_jobs (map (Pair q) (chunks (nat b) queue)) 0 m"
  by (simp add: run_batches_def batch_loop_chunks)

lemma run_jobs_shift:
  "run_jobs jobs (a + n) m =
     (case run_jobs jobs n m of (Inl e, m1) \<Rightarrow> (Inl e, m1) | (Inr k, m1) \<Rightarrow> (Inr (a + k), m1))"
proof (induction jobs arbitrary: n m)
  case Nil
  then show ?case by simp
next
  case (Cons j jobs)
  obtain q b where j: "j = (q, b)" by (cases j)
  obtain r m1 where e: "execute_many q b m = (r, m1)" by force
  show ?case
  proof (cases r)
    case (Inl x)
    then show ?thesis using j e by simp
  next
    case (Inr k)
    then show ?thesis using j e Cons.IH [of "n + k" m1] by (simp add: add.assoc)
  qed
qed

lemma run_jobs_append:
  "run_jobs (js @ ks) n m =
     (case run_jobs js n m of (Inl e, m1) \<Rightarrow> (Inl e, m1) | (Inr k, m1) \<Rightarrow> run_jobs ks k m1)"
proof (induction js arbitrary: n m)
  case Nil
  then show ?case by simp
next
  case (Cons j js)
  obtain q b where j: "j = (q, b)" by (cases j)
  obtain r m1 where e: "execute_many q b m = (r, m1)" by force
  show ?case using j e Cons.IH by (cases r) simp_all
qed

subsection \<open>Batches that succeed\<close>

lemma insert_args_clean:
  "insert_args p \<noteq> None \<Longrightarrow>
     insert_args (map nan_to_none p) \<noteq> None \<and> fst (stored_row p) = insert_key p"
  by (cases p rule: insert_args.cases)
     (simp_all add: nan_to_none_cases stored_row_def insert_key_def)

lemma update_args_clean:
  assumes "update_args p = Some (d, fs)"
  shows "update_args (map nan_to_none p) = Some (d, map nan_to_none fs)"
proof -
  from assms have "rev p = PIso d # rev fs"
    by (auto simp: update_args_def split: list.splits pvalue.splits)
  then have "rev (map nan_to_none p) = PIso d # rev (map nan_to_none fs)"
    by (simp add: rev_map nan_to_none_cases)
  then show ?thesis by (simp add: update_args_def)
qed

lemma execute_many_insert_ok:
  assumes "conn m = Some s" "faults s = []" "batch \<noteq> []"
    "\<forall>p \<in> set batch. insert_args p \<noteq> None"
    "distinct (map insert_key batch)"
    "set (map insert_key batch) \<inter> set (table_keys (working s)) = {}"
  shows "\<exists>s'. execute_many insert_sql batch m = (Inr (int (length batch)), m\<lparr>conn := Some s'\<rparr>)
           \<and> working s' = working s @ map stored_row batch \<and> durable s' = working s'
           \<and> faults s' = [] \<and> found_rows s' = found_rows s
           \<and> log s' = log s @ [Executemany insert_sql (clean batch), Commit]"
proof -
  let ?rows = "map stored_row batch"
  have ok: "\<forall>p \<in> set (clean batch). insert_args p \<noteq> None"
    using assms(4) insert_args_clean by (auto simp: clean_def)
  have rows: "those (map insert_args (clean batch)) = Some ?rows"
    using ok by (simp add: those_map_Some clean_def stored_row_def comp_def)
  have keys: "map (fst \<circ> stored_row) batch = map insert_key batch"
    using assms(4) insert_args_clean by simp
  have img: "(fst \<circ> stored_row) ` set batch = insert_key ` set batch"
    using assms(4) insert_args_clean by (auto simp: image_iff)
  have im: "insert_many None (clean batch) (working s)
              = (Inr (int (length batch)), working s @ ?rows)"
    using rows assms(5,6)
    by (simp add: insert_many_def strikes_within_def keys img image_comp)
  let ?s' = "s\<lparr>faults := [], working := working s @ ?rows, durable := working s @ ?rows,
                log := log s @ [Executemany insert_sql (clean batch), Commit]\<rparr>"
  have "execute_many insert_sql batch m = (Inr (int (length batch)), m\<lparr>conn := Some ?s'\<rparr>)"
    using assms(1,2,3) im
    by (simp add: execute_many_def cursor_executemany_def insert_is_insert next_fault_def
        conn_commit_def Let_def clean_def)
  then show ?thesis
    by (intro exI [of _ ?s']) simp
qed

lemma table_keys_update_row [simp]: "table_keys (update_row d fs t) = table_keys t"
  by (induction t) (auto simp: table_keys_def update_row_def)

lemma affected_found:
  "distinct (table_keys t) \<Longrightarrow> d \<in> set (table_keys t) \<Longrightarrow> affected True d fs t = 1"
proof (induction t)
  case Nil
  then show ?case by (simp add: table_keys_def)
next
  case (Cons r t)
  obtain k old where r: "r = (k, old)" by (cases r)
  show ?case
  proof (cases "k = d")
    case True
    with Cons.prems r have "d \<notin> set (table_keys t)" by (simp add: table_keys_def)
    then have "filter (\<lambda>(k, old). k = d) t = []"
      by (force simp: table_keys_def filter_empty_conv)
    with True r show ?thesis by (simp add: affected_def)
  next
    case False
    with Cons r show ?thesis by (simp add: affected_def table_keys_def)
  qed
qed

lemma affected_bounds:
  "distinct (table_keys t) \<Longrightarrow> 0 \<le> affected fr d fs t \<and> affected fr d fs t \<le> 1"
proof (induction t)
  case Nil
  then show ?case by (simp add: affected_def)
next
  case (Cons r t)
  obtain k old where r: "r = (k, old)" by (cases r)
  show ?case
  proof (cases "k = d")
    case True
    with Cons.prems r have "d \<notin> set (table_keys t)" by (simp add: table_keys_def)
    then have "filter (\<lambda>(k, old). k = d \<and> P old) t = []" for P
      by (force simp: table_keys_def filter_empty_conv)
    with True r show ?thesis by (simp add: affected_def)
  next
    case False
    with Cons r show ?thesis by (simp add: affected_def table_keys_def)
  qed
qed

lemma update_many_ok:
  assumes "distinct (table_keys t)"
    "\<forall>p \<in> set batch. update_args p \<noteq> None \<and> update_key p \<in> set (table_keys t)"
  shows "\<exists>c t'. update_many fr None i batch t n = (Inr (n + c), t')
           \<and> 0 \<le> c \<and> c \<le> int (length batch) \<and> (fr \<longrightarrow> c = int (length batch))
           \<and> table_keys t' = table_keys t"
  using assms
proof (induction batch arbitrary: i t n)
  case Nil
  then show ?case by simp
next
  case (Cons p ps)
  from Cons.prems(2) obtain d fs where a: "update_args p = Some (d, fs)"
    and d: "d \<in> set (table_keys t)"
    by (auto simp: update_key_def)
  let ?a = "affected fr d fs t"
  have 0: "0 \<le> ?a" "?a \<le> 1" using affected_bounds [OF Cons.prems(1)] by simp_all
  have 1: "fr \<longrightarrow> ?a = 1" using affected_found [OF Cons.prems(1) d] by simp
  have 2: "distinct (table_keys (update_row d fs t))" using Cons.prems(1) by simp
  have 3: "\<forall>p \<in> set ps. update_args p \<noteq> None \<and> update_key p \<in> set (table_keys (update_row d fs t))"
    using Cons.prems(2) by simp
  from Cons.IH [OF 2 3, of "Suc i" "n + ?a"] obtain c t' where
    r: "update_many fr None (Suc i) ps (update_row d fs t) (n + ?a) = (Inr (n + ?a + c), t')"
    and c: "0 \<le> c" "c \<le> int (length ps)" "fr \<longrightarrow> c = int (length ps)"
    and k: "table_keys t' = table_keys t" by auto
  have "update_many fr None i (p # ps) t n = (Inr (n + (?a + c)), t')"
    using a r by (simp add: strikes_def algebra_simps)
  moreover have "0 \<le> ?a + c" "?a + c \<le> int (length (p # ps))"
    "fr \<longrightarrow> ?a + c = int (length (p # ps))"
    using 0 1 c by auto
  ultimately show ?case using k by blast
qed

lemma execute_many_update_ok:
  assumes "conn m = Some s" "faults s = []" "batch \<noteq> []"
    "distinct (table_keys (working s))"
    "\<forall>p \<in> set batch. update_args p \<noteq> None \<and> update_key p \<in> set (table_keys (working s))"
  shows "\<exists>c s'. execute_many update_sql batch m = (Inr c, m\<lparr>conn := Some s'\<rparr>)
           \<and> 0 \<le> c \<and> c \<le> int (length batch) \<and> (found_rows s \<longrightarrow> c = int (length batch))
           \<and> table_keys (working s') = table_keys (working s) \<and> durable s' = working s'
           \<and> faults s' = [] \<and> found_rows s' = found_rows s
           \<and> log s' = log s @ [Executemany update_sql (clean batch), Commit]"
proof -
  have ok: "\<forall>p \<in> set (clean batch).
              update_args p \<noteq> None \<and> update_key p \<in> set (table_keys (working s))"
  proof
    fix p assume "p \<in> set (clean batch)"
    then obtain p0 where p0: "p0 \<in> set batch" and p: "p = map nan_to_none p0"
      by (auto simp: clean_def)
    from assms(5) p0 obtain d fs where a: "update_args p0 = Some (d, fs)"
      and d: "update_key p0 \<in> set (table_keys (working s))" by auto
    from update_args_clean [OF a] a d p
    show "update_args p \<noteq> None \<and> update_key p \<in> set (table_keys (working s))"
      by (simp add: update_key_def)
  qed
  from update_many_ok [OF assms(4) ok, of "found_rows s" 0 0] obtain c t' where
    um: "update_many (found_rows s) None 0 (clean batch) (working s) 0 = (Inr c, t')"
    and c: "0 \<le> c" "c \<le> int (length batch)" "found_rows s \<longrightarrow> c = int (length batch)"
    and k: "table_keys t' = table_keys (working s)"
    by (auto simp: clean_def)
  let ?s' = "s\<lparr>faults := [], working := t', durable := t',
                log := log s @ [Executemany update_sql (clean batch), Commit]\<rparr>"
  have "execute_many update_sql batch m = (Inr c, m\<lparr>conn := Some ?s'\<rparr>)"
    using assms(1,2,3) um
    by (simp add: execute_many_def cursor_executemany_def update_is_update next_fault_def
        conn_commit_def Let_def clean_def)
  then show ?thesis
    using k c by (intro exI [of _ c] exI [of _ ?s']) simp
qed

lemma batch_events_Cons:
  "batch_events q (b # bs) = Executemany q (clean b) # Commit # batch_events q bs"
  by (simp add: batch_events_def)

lemma table_keys_append [simp]: "table_keys (t @ u) = table_keys t @ table_keys u"
  by (simp add: table_keys_def)

lemma table_keys_stored_rows:
  "\<forall>p \<in> set b. insert_args p \<noteq> None \<Longrightarrow> table_keys (map stored_row b) = map insert_key b"
  using insert_args_clean by (simp add: table_keys_def)

lemma run_jobs_insert_ok:
  assumes "conn m = Some s" "faults s = []" "durable s = working s"
    "\<forall>b \<in> set batches. b \<noteq> []"
    "\<forall>p \<in> set (concat batches). insert_args p \<noteq> None"
    "distinct (map insert_key (concat batches))"
    "set (map insert_key (concat batches)) \<inter> set (table_keys (working s)) = {}"
  shows "\<exists>s'. run_jobs (map (Pair insert_sql) batches) n m
                 = (Inr (n + int (length (concat batches))), m\<lparr>conn := Some s'\<rparr>)
           \<and> working s' = working s @ map stored_row (concat batches) \<and> durable s' = working s'
           \<and> faults s' = [] \<and> found_rows s' = found_rows s
           \<and> log s' = log s @ batch_events insert_sql batches"
  using assms
proof (induction batches arbitrary: m s n)
  case Nil
  have "m\<lparr>conn := Some s\<rparr> = m" using Nil.prems(1) by simp
  then show ?case using Nil.prems by (intro exI [of _ s]) (simp add: batch_events_def)
next
  case (Cons b bs)
  have b: "b \<noteq> []" "\<forall>p \<in> set b. insert_args p \<noteq> None" "distinct (map insert_key b)"
    "set (map insert_key b) \<inter> set (table_keys (working s)) = {}"
    using Cons.prems(4,5,6,7) by auto
  from execute_many_insert_ok [OF Cons.prems(1,2) b] obtain s1 where
    e: "execute_many insert_sql b m = (Inr (int (length b)), m\<lparr>conn := Some s1\<rparr>)"
    and s1: "working s1 = working s @ map stored_row b" "durable s1 = working s1"
      "faults s1 = []" "found_rows s1 = found_rows s"
      "log s1 = log s @ [Executemany insert_sql (clean b), Commit]"
    by blast
  have c1: "conn (m\<lparr>conn := Some s1\<rparr>) = Some s1" by simp
  have r: "\<forall>b \<in> set bs. b \<noteq> []" "\<forall>p \<in> set (concat bs). insert_args p \<noteq> None"
    "distinct (map insert_key (concat bs))"
    using Cons.prems(4,5,6) by auto
  have d: "set (map insert_key (concat bs)) \<inter> set (table_keys (working s1)) = {}"
    using Cons.prems(6,7) s1(1) table_keys_stored_rows [OF b(2)] by auto
  from Cons.IH [OF c1 s1(3,2) r d, of "n + int (length b)"] obtain s' where
    j: "run_jobs (map (Pair insert_sql) bs) (n + int (length b)) (m\<lparr>conn := Some s1\<rparr>)
          = (Inr (n + int (length b) + int (length (concat bs))), m\<lparr>conn := Some s1, conn := Some s'\<rparr>)"
    and s': "working s' = working s1 @ map stored_row (concat bs)" "durable s' = working s'"
      "faults s' = []" "found_rows s' = found_rows s1"
      "log s' = log s1 @ batch_events insert_sql bs"
    by blast
  show ?case
    using e j s' s1
    by (intro exI [of _ s']) (simp add: batch_events_Cons algebra_simps)
qed

lemma run_jobs_update_ok:
  assumes "conn m = Some s" "faults s = []" "durable s = working s"
    "distinct (table_keys (working s))"
    "\<forall>b \<in> set batches. b \<noteq> []"
    "\<forall>p \<in> set (concat batches).
        update_args p \<noteq> None \<and> update_key p \<in> set (table_keys (working s))"
  shows "\<exists>c s'. run_jobs (map (Pair update_sql) batches) n m = (Inr (n + c), m\<lparr>conn := Some s'\<rparr>)
           \<and> 0 \<le> c \<and> c \<le> int (length (concat batches))
           \<and> (found_rows s \<longrightarrow> c = int (length (concat batches)))
           \<and> table_keys (working s') = table_keys (working s) \<and> durable s' = working s'
           \<and> faults s' = [] \<and> found_rows s' = found_rows s
           \<and> log s' = log s @ batch_events update_sql batches"
  using assms
proof (induction batches arbitrary: m s n)
  case Nil
  have "m\<lparr>conn := Some s\<rparr> = m" using Nil.prems(1) by simp
  then show ?case using Nil.prems
    by (intro exI [of _ 0] exI [of _ s]) (simp add: batch_events_def)
next
  case (Cons b bs)
  have b: "b \<noteq> []"
    "\<forall>p \<in> set b. update_args p \<noteq> None \<and> update_key p \<in> set (table_keys (working s))"
    using Cons.prems(5,6) by auto
  from execute_many_update_ok [OF Cons.prems(1,2) b(1) Cons.prems(4) b(2)] obtain c1 s1 where
    e: "execute_many update_sql b m = (Inr c1, m\<lparr>conn := Some s1\<rparr>)"
    and c1: "0 \<le> c1" "c1 \<le> int (length b)" "found_rows s \<longrightarrow> c1 = int (length b)"
    and s1: "table_keys (working s1) = table_keys (working s)" "durable s1 = working s1"
      "faults s1 = []" "found_rows s1 = found_rows s"
      "log s1 = log s @ [Executemany update_sql (clean b), Commit]"
    by blast
  have m1: "conn (m\<lparr>conn := Some s1\<rparr>) = Some s1" by simp
  have r: "\<forall>b \<in> set bs. b \<noteq> []"
    "\<forall>p \<in> set (concat bs).
        update_args p \<noteq> None \<and> update_key p \<in> set (table_keys (working s1))"
    "distinct (table_keys (working s1))"
    using Cons.prems(4,5,6) s1(1) by auto
  from Cons.IH [OF m1 s1(3,2) r(3,1,2), of "n + c1"] obtain c2 s' where
    j: "run_jobs (map (Pair update_sql) bs) (n + c1) (m\<lparr>conn := Some s1\<rparr>)
          = (Inr (n + c1 + c2), m\<lparr>conn := Some s1, conn := Some s'\<rparr>)"
    and c2: "0 \<le> c2" "c2 \<le> int (length (concat bs))"
      "found_rows s1 \<longrightarrow> c2 = int (length (concat bs))"
    and s': "table_keys (working s') = table_keys (working s1)" "durable s' = working s'"
      "faults s' = []" "found_rows s' = found_rows s1"
      "log s' = log s1 @ batch_events update_sql bs"
    by blast
  have "run_jobs (map (Pair update_sql) (b # bs)) n m = (Inr (n + (c1 + c2)), m\<lparr>conn := Some s'\<rparr>)"
    using e j by (simp add: algebra_simps)
  moreover have "0 \<le> c1 + c2" "c1 + c2 \<le> int (length (concat (b # bs)))"
    "found_rows s \<longrightarrow> c1 + c2 = int (length (concat (b # bs)))"
    using c1 c2 s1(4) by auto
  ultimately show ?case
    using s' s1
    by (intro exI [of _ "c1 + c2"] exI [of _ s']) (simp add: batch_events_Cons)
qed

lemma insert_tuple_facts [simp]:
  "insert_args (insert_tuple sp r) = Some (key_of sp r, the (row_fields r))"
  "insert_key (insert_tuple sp r) = key_of sp r"
  by (simp_all add: insert_tuple_def insert_key_def)

lemma update_tuple_facts [simp]:
  "update_args (update_tuple sp r) = Some (key_of sp r, the (row_fields r))"
  "update_key (update_tuple sp r) = key_of sp r"
  by (simp_all add: update_tuple_def update_key_def update_args_def)

lemma no_faults_query: "faults s = [] \<Longrightarrow> \<not> query_fails s"
  by (simp add: query_fails_def next_fault_def strikes_within_def)

lemma upsert_counts_ok:
  assumes c: "conn m = Some s" and nf: "faults s = []" and dw: "durable s = working s"
    and dt: "distinct (table_keys (working s))"
    and wf: "\<forall>r \<in> set data. well_formed sp r"
    and dn: "distinct (map (key_of sp) (new_rows sp s data))"
    and bs: "0 < batch_size"
  shows "\<exists>u s'. upsert_counts sp data batch_size m
                 = (Inr (int (length (new_rows sp s data)), u), m\<lparr>conn := Some s'\<rparr>)
           \<and> 0 \<le> u \<and> u \<le> int (length (old_rows sp s data))
           \<and> (found_rows s \<longrightarrow> u = int (length (old_rows sp s data)))
           \<and> table_keys (working s')
                = table_keys (working s) @ map (key_of sp) (new_rows sp s data)
           \<and> durable s' = working s' \<and> faults s' = [] \<and> found_rows s' = found_rows s
           \<and> log s' = log s @ Execute select_dates_sql []
                 # batch_events insert_sql
                     (chunks (nat batch_size) (map (insert_tuple sp) (new_rows sp s data)))
                 @ batch_events update_sql
                     (chunks (nat batch_size) (map (update_tuple sp) (old_rows sp s data)))"
proof -
  let ?T = "table_keys (working s)"
  let ?ex = "PDate ` set ?T"
  let ?s0 = "s\<lparr>faults := tl (faults s), log := log s @ [Execute select_dates_sql []]\<rparr>"
  let ?m0 = "m\<lparr>conn := Some ?s0\<rparr>"
  let ?ins = "map (insert_tuple sp) (new_rows sp s data)"
  let ?upd = "map (update_tuple sp) (old_rows sp s data)"
  let ?n = "nat batch_size"
  have n0: "0 < ?n" using bs by simp
  have g: "get_existing_dates m = (Inr ?ex, ?m0)"
    using get_existing_dates_ok [OF c no_faults_query [OF nf]] .
  have mem: "PDate d \<in> ?ex \<longleftrightarrow> d \<in> set ?T" for d by auto
  have p: "prepare sp ?ex data [] [] = Inr (?ins, ?upd)"
    using prepare_well_formed [OF wf, of ?ex "[]" "[]"]
    by (simp add: mem new_rows_def old_rows_def)
  have c0: "conn ?m0 = Some ?s0" by simp
  have s0: "faults ?s0 = []" "durable ?s0 = working ?s0" "working ?s0 = working s"
    using nf dw by simp_all
  have i1: "\<forall>b \<in> set (chunks ?n ?ins). b \<noteq> []" using chunks_bounds by blast
  have i2: "\<forall>p \<in> set (concat (chunks ?n ?ins)). insert_args p \<noteq> None"
    by (auto simp: concat_chunks [OF n0])
  have i3: "distinct (map insert_key (concat (chunks ?n ?ins)))"
    using dn by (simp add: concat_chunks [OF n0] comp_def)
  have i4: "set (map insert_key (concat (chunks ?n ?ins))) \<inter> set (table_keys (working ?s0)) = {}"
    by (auto simp: concat_chunks [OF n0] new_rows_def)
  from run_jobs_insert_ok [OF c0 s0(1,2) i1 i2 i3 i4, of 0] obtain s1 where
    j1: "run_jobs (map (Pair insert_sql) (chunks ?n ?ins)) 0 ?m0
           = (Inr (int (length ?ins)), m\<lparr>conn := Some s1\<rparr>)"
    and s1: "working s1 = working s @ map stored_row ?ins" "durable s1 = working s1"
      "faults s1 = []" "found_rows s1 = found_rows s"
      "log s1 = log s @ Execute select_dates_sql [] # batch_events insert_sql (chunks ?n ?ins)"
    by (auto simp: concat_chunks [OF n0])
  let ?m1 = "m\<lparr>conn := Some s1\<rparr>"
  have r1: "run_batches insert_sql ?ins batch_size ?m0 = (Inr (int (length ?ins)), ?m1)"
    using run_batches_chunks [OF bs] j1 by simp
  have k1: "table_keys (working s1) = ?T @ map (key_of sp) (new_rows sp s data)"
    using s1(1) table_keys_stored_rows [of ?ins] by (simp add: comp_def)
  have c1: "conn ?m1 = Some s1" by simp
  have d1: "distinct (table_keys (working s1))"
    unfolding k1 using dt dn by (auto simp: new_rows_def)
  have u1: "\<forall>b \<in> set (chunks ?n ?upd). b \<noteq> []" using chunks_bounds by blast
  have u2: "\<forall>p \<in> set (concat (chunks ?n ?upd)).
              update_args p \<noteq> None \<and> update_key p \<in> set (table_keys (working s1))"
    unfolding k1 by (auto simp: concat_chunks [OF n0] old_rows_def)
  from run_jobs_update_ok [OF c1 s1(3,2) d1 u1 u2, of 0] obtain u s2 where
    j2: "run_jobs (map (Pair update_sql) (chunks ?n ?upd)) 0 ?m1 = (Inr u, m\<lparr>conn := Some s2\<rparr>)"
    and u: "0 \<le> u" "u \<le> int (length ?upd)" "found_rows s1 \<longrightarrow> u = int (length ?upd)"
    and s2: "table_keys (working s2) = table_keys (working s1)" "durable s2 = working s2"
      "faults s2 = []" "found_rows s2 = found_rows s1"
      "log s2 = log s1 @ batch_events update_sql (chunks ?n ?upd)"
    by (auto simp: concat_chunks [OF n0])
  have r2: "run_batches update_sql ?upd batch_size ?m1 = (Inr u, m\<lparr>conn := Some s2\<rparr>)"
    using run_batches_chunks [OF bs, of update_sql ?upd ?m1] j2 by simp
  have "upsert_counts sp data batch_size m
          = (Inr (int (length ?ins), u), m\<lparr>conn := Some s2\<rparr>)"
    by (simp add: upsert_counts_def g p r1 r2)
  then show ?thesis
    using s2 s1(4,5) k1 u by (intro exI [of _ u] exI [of _ s2]) simp
qed

lemma inj_trading_date: "inj trading_date"
proof (rule injI)
  fix i j assume "trading_date i = trading_date j"
  then have a: "i div 336 = j div 336" and b: "i mod 336 div 28 = j mod 336 div 28"
    and c: "i mod 28 = j mod 28"
    by (simp_all add: trading_date_def)
  have "(i mod 336) mod 28 = i mod 28" "(j mod 336) mod 28 = j mod 28"
    by (simp_all add: mod_mod_cancel)
  with b c have "i mod 336 = j mod 336"
    by (metis div_mult_mod_eq)
  with a show "i = j"
    by (metis div_mult_mod_eq)
qed

lemma trading_day_well_formed: "well_formed sp (trading_day i)"
  by (simp add: well_formed_def row_key_def row_fields_def getitem_def price_columns_def
      trading_day_def)

lemma trading_day_key: "key_of sp (trading_day i) = trading_date i"
  by (simp add: key_of_def row_key_def getitem_def trading_day_def)

lemma manager_update: "(m::manager)\<lparr>conn := x\<rparr> = \<lparr>conn = x\<rparr>"
  by (cases m) simp

text \<open>
  C4. For a positive batch size the loop over a queue submits, through
  \<^verbatim>\<open>execute_many\<close> and in order, the consecutive chunks of the queue: their
  concatenation is the queue and each is non-empty and no longer than the batch
  size. A queue of 450 entries and a batch size of 200 give three batches of 200,
  200 and 50 entries. The insert queue and the update queue are chunked
  separately: a fault-free call logs the key query, then the chunks of the insert
  queue, each followed by its commit, then the chunks of the update queue, and
  returns the number of records.
\<close>

theorem batch_chunking:
  assumes "0 < batch_size"
  shows "run_batches q queue batch_size m
           = run_jobs (map (Pair q) (chunks (nat batch_size) queue)) 0 m
    \<and> concat (chunks (nat batch_size) queue) = queue
    \<and> (\<forall>b \<in> set (chunks (nat batch_size) queue). b \<noteq> [] \<and> length b \<le> nat batch_size)
    \<and> (batch_size = 200 \<and> length queue = 450 \<longrightarrow>
          map length (chunks (nat batch_size) queue) = [200, 200, 50])
    \<and> (conn m = Some s \<and> faults s = [] \<and> durable s = working s
          \<and> distinct (table_keys (working s)) \<and> (\<forall>r \<in> set data. well_formed sp r)
          \<and> distinct (map (key_of sp) (new_rows sp s data))
          \<and> (found_rows s \<or> old_rows sp s data = []) \<and> data \<noteq> [] \<longrightarrow>
        (\<exists>s'. insert_ibovespa_data sp data batch_size m
                 = (Inr (int (length data)), m\<lparr>conn := Some s'\<rparr>)
           \<and> log s' = log s @ Execute select_dates_sql []
                 # batch_events insert_sql
                     (chunks (nat batch_size) (map (insert_tuple sp) (new_rows sp s data)))
                 @ batch_events update_sql
                     (chunks (nat batch_size) (map (update_tuple sp) (old_rows sp s data)))))"
proof (intro conjI impI ballI)
  have n0: "0 < nat batch_size" using assms by simp
  show "run_batches q queue batch_size m
           = run_jobs (map (Pair q) (chunks (nat batch_size) queue)) 0 m"
    using run_batches_chunks [OF assms] .
  show "concat (chunks (nat batch_size) queue) = queue"
    using concat_chunks [OF n0] .
  show "b \<noteq> []" if "b \<in> set (chunks (nat batch_size) queue)" for b
    using chunks_bounds [OF that] by simp
  show "length b \<le> nat batch_size" if "b \<in> set (chunks (nat batch_size) queue)" for b
    using chunks_bounds [OF that] by simp
  show "map length (chunks (nat batch_size) queue) = [200, 200, 50]"
    if "batch_size = 200 \<and> length queue = 450"
    using that chunks_450 [of queue] by simp
  assume h: "conn m = Some s \<and> faults s = [] \<and> durable s = working s
          \<and> distinct (table_keys (working s)) \<and> (\<forall>r \<in> set data. well_formed sp r)
          \<and> distinct (map (key_of sp) (new_rows sp s data))
          \<and> (found_rows s \<or> old_rows sp s data = []) \<and> data \<noteq> []"
  then have c: "conn m = Some s" and nf: "faults s = []" and dw: "durable s = working s"
    and dt: "distinct (table_keys (working s))" and wf: "\<forall>r \<in> set data. well_formed sp r"
    and dn: "distinct (map (key_of sp) (new_rows sp s data))"
    and fr: "found_rows s \<or> old_rows sp s data = []" and ne: "data \<noteq> []"
    by simp_all
  from upsert_counts_ok [OF c nf dw dt wf dn assms] obtain u s' where
    u0: "upsert_counts sp data batch_size m
          = (Inr (int (length (new_rows sp s data)), u), m\<lparr>conn := Some s'\<rparr>)"
    and ub: "0 \<le> u" "u \<le> int (length (old_rows sp s data))"
      "found_rows s \<longrightarrow> u = int (length (old_rows sp s data))"
    and l: "log s' = log s @ Execute select_dates_sql []
                 # batch_events insert_sql
                     (chunks (nat batch_size) (map (insert_tuple sp) (new_rows sp s data)))
                 @ batch_events update_sql
                     (chunks (nat batch_size) (map (update_tuple sp) (old_rows sp s data)))"
    by blast
  have "u = int (length (old_rows sp s data))" using fr ub by auto
  with u0 have u: "upsert_counts sp data batch_size m
          = (Inr (int (length (new_rows sp s data)), int (length (old_rows sp s data))),
             m\<lparr>conn := Some s'\<rparr>)"
    by simp
  have "length (new_rows sp s data) + length (old_rows sp s data) = length data"
    unfolding new_rows_def old_rows_def
    using sum_length_filter_compl [of "\<lambda>r. key_of sp r \<in> set (table_keys (working s))" data]
    by simp
  then have t: "int (length (new_rows sp s data)) + int (length (old_rows sp s data))
                  = int (length data)"
    by linarith
  have "insert_ibovespa_data sp data batch_size m
          = (Inr (int (length data)), m\<lparr>conn := Some s'\<rparr>)"
    using ne u t by (simp add: insert_ibovespa_data_def)
  with l show "\<exists>s'. insert_ibovespa_data sp data batch_size m
                 = (Inr (int (length data)), m\<lparr>conn := Some s'\<rparr>)
           \<and> log s' = log s @ Execute select_dates_sql []
                 # batch_events insert_sql
                     (chunks (nat batch_size) (map (insert_tuple sp) (new_rows sp s data)))
                 @ batch_events update_sql
                     (chunks (nat batch_size) (map (update_tuple sp) (old_rows sp s data)))"
    by blast
qed

lemma history_facts:
  "length history = 450" "history \<noteq> []" "\<forall>r \<in> set history. well_formed sp r"
  "distinct (map (key_of sp) history)"
proof -
  show "length history = 450" by (simp add: history_def del: upt_rec_numeral)
  then show "history \<noteq> []" by auto
  show "\<forall>r \<in> set history. well_formed sp r"
    by (auto simp: history_def trading_day_well_formed simp del: upt_rec_numeral)
  have "distinct (map trading_date [0..<450])"
    using inj_trading_date by (simp add: distinct_map inj_on_def inj_def del: upt_rec_numeral)
  then show "distinct (map (key_of sp) history)"
    by (simp add: history_def comp_def trading_day_key del: upt_rec_numeral)
qed

theorem batch_chunking_witness:
  "\<exists>s'. insert_ibovespa_data parse_jan history 200 fresh = (Inr 450, \<lparr>conn = Some s'\<rparr>)
      \<and> log s' = Execute select_dates_sql []
           # batch_events insert_sql (chunks 200 (map (insert_tuple parse_jan) history))
      \<and> map length (chunks 200 (map (insert_tuple parse_jan) history)) = [200, 200, 50]"
proof -
  let ?queue = "map (insert_tuple parse_jan) history"
  have b: "(0::int) < 200" by simp
  have nw: "new_rows parse_jan empty_session history = history"
    and ol: "old_rows parse_jan empty_session history = []"
    by (simp_all add: new_rows_def old_rows_def empty_session_def table_keys_def)
  have h: "conn fresh = Some empty_session \<and> faults empty_session = []
      \<and> durable empty_session = working empty_session
      \<and> distinct (table_keys (working empty_session))
      \<and> (\<forall>r \<in> set history. well_formed parse_jan r)
      \<and> distinct (map (key_of parse_jan) (new_rows parse_jan empty_session history))
      \<and> (found_rows empty_session \<or> old_rows parse_jan empty_session history = [])
      \<and> history \<noteq> []"
    unfolding nw using history_facts(2) history_facts(3,4) [of parse_jan]
    by (simp add: fresh_def empty_session_def table_keys_def)
  have l: "(200::int) = 200 \<and> length ?queue = 450"
    using history_facts(1) by simp
  note T = batch_chunking [OF b, of insert_sql ?queue fresh empty_session history parse_jan]
  note T4 = T [THEN conjunct2, THEN conjunct2, THEN conjunct2, THEN conjunct1]
  note T5 = T [THEN conjunct2, THEN conjunct2, THEN conjunct2, THEN conjunct2]
  from T4 l have 3: "map length (chunks (nat 200) ?queue) = [200, 200, 50]"
    by (rule mp)
  from T5 h have "\<exists>s'. insert_ibovespa_data parse_jan history 200 fresh
                 = (Inr (int (length history)), fresh\<lparr>conn := Some s'\<rparr>)
           \<and> log s' = log empty_session @ Execute select_dates_sql []
                 # batch_events insert_sql
                     (chunks (nat 200) (map (insert_tuple parse_jan) (new_rows parse_jan empty_session history)))
                 @ batch_events update_sql
                     (chunks (nat 200) (map (update_tuple parse_jan) (old_rows parse_jan empty_session history)))"
    by (rule mp)
  then obtain s' where
    1: "insert_ibovespa_data parse_jan history 200 fresh
          = (Inr (int (length history)), fresh\<lparr>conn := Some s'\<rparr>)"
    and 2: "log s' = log empty_session @ Execute select_dates_sql []
                 # batch_events insert_sql
                     (chunks (nat 200) (map (insert_tuple parse_jan) (new_rows parse_jan empty_session history)))
                 @ batch_events update_sql
                     (chunks (nat 200) (map (update_tuple parse_jan) (old_rows parse_jan empty_session history)))"
    by (elim exE conjE)
  have n: "nat 200 = 200" by simp
  have e: "log empty_session = []" by (simp add: empty_session_def)
  have u: "batch_events update_sql (chunks 200 (map (update_tuple parse_jan) [])) = []"
    by (simp add: batch_events_def)
  have r1: "insert_ibovespa_data parse_jan history 200 fresh = (Inr 450, \<lparr>conn = Some s'\<rparr>)"
    using 1 by (simp add: manager_update history_facts(1))
  have r2: "log s' = Execute select_dates_sql []
           # batch_events insert_sql (chunks 200 (map (insert_tuple parse_jan) history))"
    using 2 unfolding nw ol n e u by simp
  from r1 r2 3 [unfolded n] show ?thesis by (intro exI [of _ s'] conjI)
qed

subsection \<open>Reconciling the same records twice\<close>

text \<open>
  C2, as the code has it. Starting from an empty store on a fault-free connection,
  reconciling \<open>N\<close> well-formed records with pairwise distinct dates inserts \<open>N\<close>
  rows. Reconciling the same records again raises nothing, has
  \<^verbatim>\<open>inserted = 0\<close>, submits update batches only and leaves one row per date.
  Its counter \<^verbatim>\<open>updated\<close>, which is also the value returned, is the sum of the
  row counts the driver reports: between 0 and \<open>N\<close>, and \<open>N\<close> when the connection
  reports the rows an \<^verbatim>\<open>UPDATE\<close> matches.
\<close>

theorem reconcile_twice:
  assumes "conn m = Some s" "durable s = []" "working s = []" "faults s = []"
    and "\<forall>r \<in> set data. well_formed sp r" "distinct (map (key_of sp) data)"
    and "0 < batch_size"
  shows "\<exists>u s1 s2.
           upsert_counts sp data batch_size m
             = (Inr (int (length data), 0), \<lparr>conn = Some s1\<rparr>)
         \<and> upsert_counts sp data batch_size \<lparr>conn = Some s1\<rparr>
             = (Inr (0, u), \<lparr>conn = Some s2\<rparr>)
         \<and> fst (insert_ibovespa_data sp data batch_size \<lparr>conn = Some s1\<rparr>) = Inr u
         \<and> 0 \<le> u \<and> u \<le> int (length data) \<and> (found_rows s \<longrightarrow> u = int (length data))
         \<and> table_keys (durable s2) = map (key_of sp) data
         \<and> distinct (table_keys (durable s2))
         \<and> log s2 = log s1 @ Execute select_dates_sql []
               # batch_events update_sql (chunks (nat batch_size) (map (update_tuple sp) data))"
proof -
  have n1: "new_rows sp s data = data" and o1: "old_rows sp s data = []"
    using assms(3) by (simp_all add: new_rows_def old_rows_def table_keys_def)
  have dw: "durable s = working s" and dt: "distinct (table_keys (working s))"
    using assms(2,3) by (simp_all add: table_keys_def)
  have dn: "distinct (map (key_of sp) (new_rows sp s data))"
    using assms(6) n1 by simp
  from upsert_counts_ok [OF assms(1,4) dw dt assms(5) dn assms(7)] obtain u1 s1 where
    u1: "upsert_counts sp data batch_size m
           = (Inr (int (length data), u1), m\<lparr>conn := Some s1\<rparr>)"
    and z: "0 \<le> u1" "u1 \<le> 0"
    and s1: "table_keys (working s1) = map (key_of sp) data" "durable s1 = working s1"
      "faults s1 = []" "found_rows s1 = found_rows s"
    unfolding n1 o1 using assms(3) by (auto simp: table_keys_def)
  let ?m1 = "\<lparr>conn = Some s1\<rparr>"
  have c1: "conn ?m1 = Some s1" by simp
  have n2: "new_rows sp s1 data = []" and o2: "old_rows sp s1 data = data"
    using s1(1) by (simp_all add: new_rows_def old_rows_def)
  have dt2: "distinct (table_keys (working s1))" using s1(1) assms(6) by simp
  have dn2: "distinct (map (key_of sp) (new_rows sp s1 data))"
    using n2 by simp
  from upsert_counts_ok [OF c1 s1(3,2) dt2 assms(5) dn2 assms(7)] obtain u s2 where
    u2: "upsert_counts sp data batch_size ?m1 = (Inr (0, u), ?m1\<lparr>conn := Some s2\<rparr>)"
    and u: "0 \<le> u" "u \<le> int (length data)" "found_rows s1 \<longrightarrow> u = int (length data)"
    and s2: "table_keys (working s2) = table_keys (working s1)" "durable s2 = working s2"
      "log s2 = log s1 @ Execute select_dates_sql []
         # batch_events update_sql (chunks (nat batch_size) (map (update_tuple sp) data))"
    unfolding n2 o2 by (auto simp: batch_events_def)
  have t: "fst (insert_ibovespa_data sp data batch_size ?m1) = Inr u"
    using u2 u(1,2) by (auto simp: insert_ibovespa_data_def)
  have k: "table_keys (durable s2) = map (key_of sp) data"
    using s2(1,2) s1(1) by simp
  have "upsert_counts sp data batch_size m = (Inr (int (length data), 0), ?m1)"
    and "upsert_counts sp data batch_size ?m1 = (Inr (0, u), \<lparr>conn = Some s2\<rparr>)"
    using u1 z u2 by (simp_all add: manager_update)
  with t k s2(3) assms(6) u s1(4) show ?thesis
    by (intro exI [of _ u] exI [of _ s1] exI [of _ s2]) simp
qed

lemma three_days_facts:
  "\<forall>r \<in> set [first_day, third_day, second_day]. well_formed parse_jan r"
  "map (key_of parse_jan) [first_day, third_day, second_day]
     = [Date 2024 1 2, Date 2024 1 4, Date 2024 1 3]"
  by (simp_all add: row_defs)

theorem reconcile_twice_witness:
  "\<exists>s1 s2.
      upsert_counts parse_jan [first_day, third_day, second_day] 2 fresh
        = (Inr (3, 0), \<lparr>conn = Some s1\<rparr>)
    \<and> upsert_counts parse_jan [first_day, third_day, second_day] 2 \<lparr>conn = Some s1\<rparr>
        = (Inr (0, 3), \<lparr>conn = Some s2\<rparr>)
    \<and> fst (insert_ibovespa_data parse_jan [first_day, third_day, second_day] 2
             \<lparr>conn = Some s1\<rparr>) = Inr 3
    \<and> table_keys (durable s2) = [Date 2024 1 2, Date 2024 1 4, Date 2024 1 3]"
proof -
  have h: "conn fresh = Some empty_session" "durable empty_session = []"
    "working empty_session = []" "faults empty_session = []"
    by (simp_all add: fresh_def empty_session_def)
  have f: "found_rows empty_session" by (simp add: empty_session_def)
  have d: "distinct (map (key_of parse_jan) [first_day, third_day, second_day])"
    unfolding three_days_facts(2) by simp
  have b: "(0::int) < 2" by simp
  from reconcile_twice [OF h three_days_facts(1) d b] obtain u s1 s2 where
    "upsert_counts parse_jan [first_day, third_day, second_day] 2 fresh
        = (Inr (int (length [first_day, third_day, second_day]), 0), \<lparr>conn = Some s1\<rparr>)"
    "upsert_counts parse_jan [first_day, third_day, second_day] 2 \<lparr>conn = Some s1\<rparr>
        = (Inr (0, u), \<lparr>conn = Some s2\<rparr>)"
    "fst (insert_ibovespa_data parse_jan [first_day, third_day, second_day] 2
             \<lparr>conn = Some s1\<rparr>) = Inr u"
    "found_rows empty_session \<longrightarrow> u = int (length [first_day, third_day, second_day])"
    "table_keys (durable s2) = map (key_of parse_jan) [first_day, third_day, second_day]"
    by (elim exE conjE)
  then show ?thesis
    unfolding three_days_facts(2) using f
    by (intro exI [of _ s1] exI [of _ s2]) simp
qed

text \<open>
  The claim as the specification words it fails on a connection that reports the
  rows an \<^verbatim>\<open>UPDATE\<close> changes, which is what MySQL does unless the client flag is
  set, and \<^verbatim>\<open>connect\<close> sets no client flag: writing the stored values again
  changes no row, so the second reconciliation of one record has
  \<^verbatim>\<open>updated = 0\<close> and returns 0, not 1.
\<close>

theorem reconcile_twice_changed_rows:
  "fst (upsert_counts parse_jan [third_day] 2 \<lparr>conn = Some counts_changed_only\<rparr>) = Inr (1, 0)
   \<and> fst (upsert_counts parse_jan [third_day] 2
            (snd (upsert_counts parse_jan [third_day] 2 \<lparr>conn = Some counts_changed_only\<rparr>)))
       = Inr (0, 0)
   \<and> fst (insert_ibovespa_data parse_jan [third_day] 2
            (snd (upsert_counts parse_jan [third_day] 2 \<lparr>conn = Some counts_changed_only\<rparr>)))
       = Inr 0
   \<and> int (length [third_day]) = 1"
  by (simp add: run_defs row_defs counts_changed_only_def empty_session_def)

subsection \<open>A batch that fails\<close>

lemma cursor_executemany_log:
  "log (snd (cursor_executemany q batch s)) = log s @ [Executemany q batch]"
  by (simp add: cursor_executemany_def Let_def split: prod.splits)

lemma execute_many_failed:
  assumes "execute_many q b m1 = (Inl (Error e), m2)"
  shows "\<exists>s1 s2. conn m1 = Some s1 \<and> m2 = \<lparr>conn = Some s2\<rparr> \<and> durable s2 = durable s1
           \<and> working s2 = durable s1
           \<and> log s2 = log s1 @ [Executemany q (clean b), Rollback]"
proof -
  from assms have ne: "b \<noteq> []" by (auto simp: execute_many_def)
  with assms obtain s1 where s1: "conn m1 = Some s1"
    by (auto simp: execute_many_def split: option.splits)
  obtain r sx where c: "cursor_executemany q (clean b) s1 = (r, sx)" by force
  with assms ne s1 have m2: "m2 = m1\<lparr>conn := Some (conn_rollback sx)\<rparr>"
    by (auto simp: execute_many_def clean_def split: sum.splits)
  have d: "durable sx = durable s1" "log sx = log s1 @ [Executemany q (clean b)]"
    using cursor_executemany_tables(1) [of q "clean b" s1]
      cursor_executemany_log [of q "clean b" s1] c by simp_all
  show ?thesis
    using s1 m2 d
    by (intro exI [of _ s1] exI [of _ "conn_rollback sx"])
       (simp add: manager_update conn_rollback_def)
qed

lemma two_phases_fail:
  assumes "0 < bs"
    and "run_jobs (map (Pair insert_sql) (chunks (nat bs) ins)
                    @ map (Pair update_sql) (chunks (nat bs) upd)) 0 m0 = (Inl x, m2)"
  shows "(case run_batches insert_sql ins bs m0 of
            (Inl e, m') \<Rightarrow> on_error e m'
          | (Inr i, m') \<Rightarrow>
              (case run_batches update_sql upd bs m' of
                 (Inl e, m'') \<Rightarrow> on_error e m''
               | (Inr u, m'') \<Rightarrow> (Inr (i, u), m''))) = on_error x m2"
proof -
  let ?js = "map (Pair insert_sql) (chunks (nat bs) ins)"
  let ?ks = "map (Pair update_sql) (chunks (nat bs) upd)"
  obtain r1 m' where 1: "run_jobs ?js 0 m0 = (r1, m')" by force
  then have b1: "run_batches insert_sql ins bs m0 = (r1, m')"
    using run_batches_chunks [OF assms(1)] by simp
  show ?thesis
  proof (cases r1)
    case (Inl e)
    with 1 b1 assms(2) show ?thesis by (simp add: run_jobs_append)
  next
    case (Inr i)
    with 1 assms(2) have 2: "run_jobs ?ks i m' = (Inl x, m2)" by (simp add: run_jobs_append)
    obtain r2 m'' where 3: "run_jobs ?ks 0 m' = (r2, m'')" by force
    then have b2: "run_batches update_sql upd bs m' = (r2, m'')"
      using run_batches_chunks [OF assms(1)] by simp
    from run_jobs_shift [of ?ks i 0 m'] 2 3 have "r2 = Inl x \<and> m'' = m2"
      by (cases r2) simp_all
    with b1 Inr b2 show ?thesis by simp
  qed
qed

text \<open>
  C3. Let the batches of a call be the chunks of the insert queue followed by the
  chunks of the update queue. If the batches before one of them have been
  executed and committed and that one raises a driver error, then the call raises
  this error; the committed rows are those left by the earlier batches, the open
  transaction holds nothing else (the failed batch is rolled back, by
  \<^verbatim>\<open>execute_many\<close> and once more by the outer handler), and the call log ends
  with the failed batch and the two rollbacks: no later batch is submitted.
\<close>

theorem partial_failure:
  assumes "0 < batch_size" "data \<noteq> []"
    and "get_existing_dates m = (Inr existing, m0)"
    and "prepare sp existing data [] [] = Inr (inserts, updates)"
    and "map (Pair insert_sql) (chunks (nat batch_size) inserts)
           @ map (Pair update_sql) (chunks (nat batch_size) updates)
         = before @ (q, b) # after"
    and "run_jobs before 0 m0 = (Inr n, m1)"
    and "execute_many q b m1 = (Inl (Error e), m2)"
  shows "\<exists>s1 s'. conn m1 = Some s1
           \<and> insert_ibovespa_data sp data batch_size m = (Inl (Error e), \<lparr>conn = Some s'\<rparr>)
           \<and> durable s' = durable s1 \<and> working s' = durable s1
           \<and> log s' = log s1 @ [Executemany q (clean b), Rollback, Rollback]"
proof -
  let ?js = "map (Pair insert_sql) (chunks (nat batch_size) inserts)"
  let ?ks = "map (Pair update_sql) (chunks (nat batch_size) updates)"
  have "run_jobs (before @ (q, b) # after) 0 m0 = (Inl (Error e), m2)"
    using assms(6,7) by (simp add: run_jobs_append)
  then have f: "run_jobs (?js @ ?ks) 0 m0 = (Inl (Error e), m2)"
    using assms(5) by simp
  have u: "upsert_counts sp data batch_size m = on_error (Error e) m2"
    using two_phases_fail [OF assms(1) f]
    by (simp add: upsert_counts_def assms(3,4))
  from execute_many_failed [OF assms(7)] obtain s1 s2 where
    s: "conn m1 = Some s1" "m2 = \<lparr>conn = Some s2\<rparr>" "durable s2 = durable s1"
      "working s2 = durable s1" "log s2 = log s1 @ [Executemany q (clean b), Rollback]"
    by blast
  have "upsert_counts sp data batch_size m
          = (Inl (Error e), \<lparr>conn = Some (conn_rollback s2)\<rparr>)"
    unfolding u using s(2) by (simp add: on_error_def)
  with assms(2) have
    "insert_ibovespa_data sp data batch_size m = (Inl (Error e), \<lparr>conn = Some (conn_rollback s2)\<rparr>)"
    by (simp add: insert_ibovespa_data_def)
  with s show ?thesis
    by (intro exI [of _ s1] exI [of _ "conn_rollback s2"]) (simp add: conn_rollback_def)
qed

lemmas week_defs = week_def stale_week_def failing_store_def written_def
  trading_date_def clean_def stale_fields_def out_of_range_def

lemma week_tuples:
  "update_tuple parse_jan (trading_day i) =
     [PFloat 118000, PFloat 119000, PFloat 117000, PFloat 118500, PInt (int i),
      PInt (2020 + int (i div 336)), PInt (1 + int (i mod 336 div 28)), PInt (1 + int (i mod 28)),
      PNaN, PNone, PNone, PNone, PNone, PNone, PIso (trading_date i)]"
  by (simp add: row_defs trading_day_def)

theorem partial_failure_witness:
  "\<exists>s'. insert_ibovespa_data parse_jan week 2 \<lparr>conn = Some failing_store\<rparr>
           = (Inl (Error out_of_range), \<lparr>conn = Some s'\<rparr>)
      \<and> durable s' = [(trading_date 0, written 0), (trading_date 1, written 1),
           (trading_date 2, stale_fields), (trading_date 3, stale_fields),
           (trading_date 4, stale_fields)]
      \<and> working s' = durable s'
      \<and> log s' = [Execute select_dates_sql [],
           Executemany update_sql
             (clean [update_tuple parse_jan (trading_day 0), update_tuple parse_jan (trading_day 1)]),
           Commit,
           Executemany update_sql
             (clean [update_tuple parse_jan (trading_day 2), update_tuple parse_jan (trading_day 3)]),
           Rollback, Rollback]"
proof -
  let ?m = "\<lparr>conn = Some failing_store\<rparr>"
  let ?u = "\<lambda>i. update_tuple parse_jan (trading_day i)"
  let ?ex = "PDate ` set (table_keys stale_week)"
  let ?mq = "\<lparr>conn = Some (failing_store\<lparr>faults := [None, Some (1, out_of_range)],
                log := [Execute select_dates_sql []]\<rparr>)\<rparr>"
  let ?before = "[(update_sql, [?u 0, ?u 1])]"
  let ?b = "[?u 2, ?u 3]"
  let ?after = "[(update_sql, [?u 4])]"
  let ?mb = "\<lparr>conn = Some after_first_batch\<rparr>"
  have b: "(0::int) < 2" and ne: "week \<noteq> []" by (simp_all add: week_def)
  have q: "\<not> query_fails failing_store"
    by (simp add: query_fails_def failing_store_def next_fault_def strikes_within_def)
  have w: "working failing_store = stale_week" by (simp add: failing_store_def)
  have m0: "?m\<lparr>conn := Some (failing_store\<lparr>faults := tl (faults failing_store),
                log := log failing_store @ [Execute select_dates_sql []]\<rparr>)\<rparr> = ?mq"
    by (simp add: failing_store_def)
  have c0: "conn ?m = Some failing_store" by simp
  have g: "get_existing_dates ?m = (Inr ?ex, ?mq)"
    using get_existing_dates_ok [OF c0 q] unfolding w m0 .
  have keys: "map (key_of parse_jan) week
                = [trading_date 0, trading_date 1, trading_date 2, trading_date 3, trading_date 4]"
    by (simp add: week_def trading_day_key)
  have wf: "\<forall>r \<in> set week. well_formed parse_jan r"
    by (simp add: week_def trading_day_well_formed)
  have p: "prepare parse_jan ?ex week [] [] = Inr ([], [?u 0, ?u 1, ?u 2, ?u 3, ?u 4])"
    using prepare_well_formed [OF wf, of ?ex "[]" "[]"]
    by (simp add: week_def trading_day_key stale_week_def table_keys_def)
  have j: "map (Pair insert_sql) (chunks (nat 2) [])
             @ map (Pair update_sql) (chunks (nat 2) [?u 0, ?u 1, ?u 2, ?u 3, ?u 4])
           = ?before @ (update_sql, ?b) # ?after"
    by (simp add: chunks_step)
  have r: "run_jobs ?before 0 ?mq = (Inr 2, ?mb)"
    unfolding week_tuples
    by (simp add: run_defs week_defs after_first_batch_def week_tuples)
  have e: "execute_many update_sql ?b ?mb
             = (Inl (Error out_of_range), snd (execute_many update_sql ?b ?mb))"
    unfolding week_tuples
    by (simp add: run_defs week_defs after_first_batch_def week_tuples)
  from partial_failure [OF b ne g p j r e] obtain s1 s' where
    c: "conn ?mb = Some s1"
    and i: "insert_ibovespa_data parse_jan week 2 ?m = (Inl (Error out_of_range), \<lparr>conn = Some s'\<rparr>)"
    and d: "durable s' = durable s1" "working s' = durable s1"
      "log s' = log s1 @ [Executemany update_sql (clean ?b), Rollback, Rollback]"
    by (elim exE conjE)
  from c have s1: "s1 = after_first_batch" by simp
  show ?thesis
    using i d unfolding s1
    by (intro exI [of _ s']) (simp add: after_first_batch_def)
qed

end
